theory Spec2Isabelle
  imports Complex_Main
begin

section \<open>Text: characters, lowering, containment\<close>

text \<open>
  Python strings are modelled as \<^typ>\<open>string\<close>. The embedding is exact for ASCII text;
  the only non-ASCII character of the source, the rupee sign of two classifier patterns, is
  written as its three UTF-8 bytes, and bytes above 127 are symbols: neither letters,
  digits, spaces nor word characters.
\<close>

definition code :: "char \<Rightarrow> nat" where
  "code c = of_char c"

definition is_upper :: "char \<Rightarrow> bool" where
  "is_upper c = (65 \<le> code c \<and> code c \<le> 90)"

definition is_lower :: "char \<Rightarrow> bool" where
  "is_lower c = (97 \<le> code c \<and> code c \<le> 122)"

definition is_digit :: "char \<Rightarrow> bool" where
  "is_digit c = (48 \<le> code c \<and> code c \<le> 57)"

text \<open>\<^verbatim>\<open>\s\<close> on ASCII: tab, newline, vertical tab, form feed, carriage return, the four
  separators 28..31 and the space.\<close>

definition is_space :: "char \<Rightarrow> bool" where
  "is_space c = ((9 \<le> code c \<and> code c \<le> 13) \<or> (28 \<le> code c \<and> code c \<le> 32))"

text \<open>\<^verbatim>\<open>\w\<close> on ASCII: letters, digits and the underscore.\<close>

definition is_word :: "char \<Rightarrow> bool" where
  "is_word c = (is_upper c \<or> is_lower c \<or> is_digit c \<or> code c = 95)"

definition lower_char :: "char \<Rightarrow> char" where
  "lower_char c = (if is_upper c then char_of (code c + 32) else c)"

definition upper_char :: "char \<Rightarrow> char" where
  "upper_char c = (if is_lower c then char_of (code c - 32) else c)"

text \<open>\<^verbatim>\<open>str.lower()\<close>\<close>

definition lower :: "string \<Rightarrow> string" where
  "lower s = map lower_char s"

text \<open>\<^verbatim>\<open>s.startswith(w)\<close>\<close>

fun startswith :: "string \<Rightarrow> string \<Rightarrow> bool" where
  "startswith s [] = True"
| "startswith [] (w # ws) = False"
| "startswith (c # cs) (w # ws) = (c = w \<and> startswith cs ws)"

text \<open>\<^verbatim>\<open>w in s\<close> on strings: \<open>w\<close> occurs in \<open>s\<close> as a contiguous piece.\<close>

fun contains :: "string \<Rightarrow> string \<Rightarrow> bool" where
  "contains [] w = (w = [])"
| "contains (c # cs) w = (startswith (c # cs) w \<or> contains cs w)"

section \<open>Regular expressions as Python's \<^verbatim>\<open>re\<close> module runs them\<close>

text \<open>
  The patterns of the program are written as syntax trees and run by a backtracking
  matcher that returns every way a pattern can match at a position, in the order in which
  backtracking tries them: the head of that list is the match Python reports.
\<close>

datatype cls_item = Ch char | Rng char char | Digit | Space

datatype regex =
    Eps
  | Chr char
  | Cls "cls_item list"
  | Seq regex regex
  | Alt regex regex
  | Rep nat "nat option" regex
  | Grp regex
  | WordB

text \<open>Concatenation and alternation of several parts; a literal word.\<close>

fun cat :: "regex list \<Rightarrow> regex" where
  "cat [] = Eps"
| "cat [r] = r"
| "cat (r # rs) = Seq r (cat rs)"

fun alts :: "regex list \<Rightarrow> regex" where
  "alts [] = Cls []"
| "alts [r] = r"
| "alts (r # rs) = Alt r (alts rs)"

definition str :: "string \<Rightarrow> regex" where
  "str w = cat (map Chr w)"

definition opt :: "regex \<Rightarrow> regex" where
  "opt r = Rep 0 (Some 1) r"

definition star :: "regex \<Rightarrow> regex" where
  "star r = Rep 0 None r"

definition plus :: "regex \<Rightarrow> regex" where
  "plus r = Rep 1 None r"

text \<open>The position of a match in progress: the character before it (for \<^verbatim>\<open>\b\<close>), the text
  still to read, and what group 1 captured.\<close>

datatype mstate = MState (prev: "char option") (rest: string) (grp: "string option")

fun in_item :: "cls_item \<Rightarrow> char \<Rightarrow> bool" where
  "in_item (Ch x) c = (c = x)"
| "in_item (Rng a b) c = (code a \<le> code c \<and> code c \<le> code b)"
| "in_item Digit c = is_digit c"
| "in_item Space c = is_space c"

definition in_cls :: "cls_item list \<Rightarrow> char \<Rightarrow> bool" where
  "in_cls items c = list_ex (\<lambda>i. in_item i c) items"

text \<open>The flag \<open>ic\<close> is \<^verbatim>\<open>re.IGNORECASE\<close>.\<close>

definition chr_match :: "bool \<Rightarrow> char \<Rightarrow> char \<Rightarrow> bool" where
  "chr_match ic x c = (if ic then lower_char c = lower_char x else c = x)"

definition cls_match :: "bool \<Rightarrow> cls_item list \<Rightarrow> char \<Rightarrow> bool" where
  "cls_match ic items c =
     (if ic then in_cls items c \<or> in_cls items (lower_char c) \<or> in_cls items (upper_char c)
      else in_cls items c)"

text \<open>\<^verbatim>\<open>\b\<close>: exactly one of the two neighbours is a word character; the ends of the text
  count as non-word.\<close>

definition at_boundary :: "char option \<Rightarrow> string \<Rightarrow> bool" where
  "at_boundary p s =
     ((case p of None \<Rightarrow> False | Some c \<Rightarrow> is_word c)
       \<noteq> (case s of [] \<Rightarrow> False | c # _ \<Rightarrow> is_word c))"

text \<open>
  Greedy repetition: \<open>k\<close> bounds the iterations still allowed, \<open>lo\<close> those still owed.
  One more iteration is tried before stopping. An iteration has to consume text, which
  every repeated part of the patterns below does.
\<close>

fun rep_ms :: "(mstate \<Rightarrow> mstate list) \<Rightarrow> nat \<Rightarrow> nat \<Rightarrow> mstate \<Rightarrow> mstate list" where
  "rep_ms f lo k st =
     (if k = 0 then (if lo = 0 then [st] else [])
      else concat (map (rep_ms f (lo - 1) (k - 1))
                    (filter (\<lambda>st'. length (rest st') < length (rest st)) (f st)))
           @ (if lo = 0 then [st] else []))"

declare rep_ms.simps [simp del]

primrec ms :: "bool \<Rightarrow> regex \<Rightarrow> mstate \<Rightarrow> mstate list" where
  "ms ic Eps = (\<lambda>st. [st])"
| "ms ic (Chr x) = (\<lambda>st. case rest st of [] \<Rightarrow> []
      | c # cs \<Rightarrow> if chr_match ic x c then [MState (Some c) cs (grp st)] else [])"
| "ms ic (Cls items) = (\<lambda>st. case rest st of [] \<Rightarrow> []
      | c # cs \<Rightarrow> if cls_match ic items c then [MState (Some c) cs (grp st)] else [])"
| "ms ic (Seq a b) = (\<lambda>st. concat (map (ms ic b) (ms ic a st)))"
| "ms ic (Alt a b) = (\<lambda>st. ms ic a st @ ms ic b st)"
| "ms ic (Rep lo hi r) = (\<lambda>st.
      rep_ms (ms ic r) lo (case hi of None \<Rightarrow> length (rest st) | Some h \<Rightarrow> h) st)"
| "ms ic (Grp r) = (\<lambda>st. map (\<lambda>st'. MState (prev st') (rest st')
      (Some (take (length (rest st) - length (rest st')) (rest st)))) (ms ic r st))"
| "ms ic WordB = (\<lambda>st. if at_boundary (prev st) (rest st) then [st] else [])"

text \<open>\<^verbatim>\<open>pattern.search(text)\<close> as a truth value: some position has a match.\<close>

fun search_from :: "bool \<Rightarrow> regex \<Rightarrow> char option \<Rightarrow> string \<Rightarrow> bool" where
  "search_from ic r p [] = (ms ic r (MState p [] None) \<noteq> [])"
| "search_from ic r p (c # cs) =
     (ms ic r (MState p (c # cs) None) \<noteq> [] \<or> search_from ic r (Some c) cs)"

definition search :: "bool \<Rightarrow> regex \<Rightarrow> string \<Rightarrow> bool" where
  "search ic r s = search_from ic r None s"

primrec has_group :: "regex \<Rightarrow> bool" where
  "has_group Eps = False"
| "has_group (Chr x) = False"
| "has_group (Cls items) = False"
| "has_group (Seq a b) = (has_group a \<or> has_group b)"
| "has_group (Alt a b) = (has_group a \<or> has_group b)"
| "has_group (Rep lo hi r) = has_group r"
| "has_group (Grp r) = True"
| "has_group WordB = False"

text \<open>What \<^verbatim>\<open>findall\<close> lists for one match: group 1 when the pattern has a group (the empty
  string if the group took no part), the whole match otherwise.\<close>

definition found_item :: "regex \<Rightarrow> string \<Rightarrow> mstate \<Rightarrow> string" where
  "found_item r s st' =
     (if has_group r then (case grp st' of None \<Rightarrow> [] | Some g \<Rightarrow> g)
      else take (length s - length (rest st')) s)"

text \<open>\<^verbatim>\<open>pattern.findall(text)\<close>: leftmost matches, left to right, without overlap. After a
  match the scan resumes where it ended; a match that consumed nothing moves on by one
  character (no pattern below can match the empty string).\<close>

function findall_from :: "bool \<Rightarrow> regex \<Rightarrow> char option \<Rightarrow> string \<Rightarrow> string list" where
  "findall_from ic r p s =
     (case ms ic r (MState p s None) of
        [] \<Rightarrow> (case s of [] \<Rightarrow> [] | c # cs \<Rightarrow> findall_from ic r (Some c) cs)
      | st' # _ \<Rightarrow>
          (if length (rest st') < length s
           then found_item r s st' # findall_from ic r (prev st') (rest st')
           else found_item r s st' #
                  (case s of [] \<Rightarrow> [] | c # cs \<Rightarrow> findall_from ic r (Some c) cs)))"
  by pat_completeness auto
termination
  by (relation "measure (\<lambda>(ic, r, p, s). length s)") auto

declare findall_from.simps [simp del]

definition findall :: "bool \<Rightarrow> regex \<Rightarrow> string \<Rightarrow> string list" where
  "findall ic r s = findall_from ic r None s"

section \<open>The intelligence extractor (\<^verbatim>\<open>app/core/extractor.py\<close>)\<close>

definition alnum :: "cls_item list" where
  "alnum = [Rng CHR ''a'' CHR ''z'', Rng CHR ''A'' CHR ''Z'', Rng CHR ''0'' CHR ''9'']"

definition upi_providers :: "string list" where
  "upi_providers = [''upi'', ''paytm'', ''ybl'', ''oksbi'', ''okhdfcbank'', ''okicici'',
     ''okaxis'', ''okbizaxis'', ''ibl'', ''axl'', ''payzapp'', ''ikwik'', ''fam'', ''apl'',
     ''abf'', ''pingpay'', ''olamoney'', ''phonepe'', ''googlepay'', ''gpay'', ''amazonpay'']"

text \<open>\<^verbatim>\<open>\b[a-zA-Z0-9.\-_]{2,256}@(upi|paytm|...|amazonpay)\b\<close>, ignoring case\<close>

definition pat_upiIds :: regex where
  "pat_upiIds = cat [WordB,
     Rep 2 (Some 256) (Cls (alnum @ [Ch CHR ''.'', Ch CHR ''-'', Ch CHR ''_''])),
     Chr CHR ''@'', Grp (alts (map str upi_providers)), WordB]"

text \<open>\<^verbatim>\<open>(?:account|a/c|acc|account number)[:\s]*(\d{9,18})\b\<close>, ignoring case\<close>

definition pat_bankAccounts :: regex where
  "pat_bankAccounts = cat [
     alts [str ''account'', str ''a/c'', str ''acc'', str ''account number''],
     star (Cls [Ch CHR '':'', Space]), Grp (Rep 9 (Some 18) (Cls [Digit])), WordB]"

text \<open>\<^verbatim>\<open>(?:\+91[\-\s]?)?[0]?(?:91)?[789]\d{9}\b\<close>, case-sensitive\<close>

definition pat_phoneNumbers :: regex where
  "pat_phoneNumbers = cat [
     opt (cat [Chr CHR ''+'', str ''91'', opt (Cls [Ch CHR ''-'', Space])]),
     opt (Cls [Ch CHR ''0'']), opt (str ''91''),
     Cls [Ch CHR ''7'', Ch CHR ''8'', Ch CHR ''9''], Rep 9 (Some 9) (Cls [Digit]), WordB]"

text \<open>\<^verbatim>\<open>http[s]?://(?:[a-zA-Z]|[0-9]|[$\-_@.&+]|[!*\\(\\),]|(?:%[0-9a-fA-F][0-9a-fA-F]))+\<close>,
  case-sensitive\<close>

definition hexdigit :: "cls_item list" where
  "hexdigit = [Rng CHR ''0'' CHR ''9'', Rng CHR ''a'' CHR ''f'', Rng CHR ''A'' CHR ''F'']"

definition pat_phishingLinks :: regex where
  "pat_phishingLinks = cat [str ''http'', opt (Cls [Ch CHR ''s'']), str ''://'',
     plus (alts [
       Cls [Rng CHR ''a'' CHR ''z'', Rng CHR ''A'' CHR ''Z''],
       Cls [Rng CHR ''0'' CHR ''9''],
       Cls [Ch CHR ''$'', Ch CHR ''-'', Ch CHR ''_'', Ch CHR ''@'', Ch CHR ''.'', Ch CHR ''&'',
            Ch CHR ''+''],
       Cls [Ch CHR ''!'', Ch CHR ''*'', Ch (CHR 0x5C), Ch CHR ''('', Ch (CHR 0x5C),
            Ch CHR '')'', Ch CHR '',''],
       cat [Chr CHR ''%'', Cls hexdigit, Cls hexdigit]])]"

text \<open>\<^verbatim>\<open>\b(bit\.ly|tinyurl\.com|goo\.gl|t\.co|ow\.ly|is\.gd|buff\.ly)/[a-zA-Z0-9]+\b\<close>,
  ignoring case\<close>

definition pat_shortenedLinks :: regex where
  "pat_shortenedLinks = cat [WordB,
     Grp (alts (map str [''bit.ly'', ''tinyurl.com'', ''goo.gl'', ''t.co'', ''ow.ly'',
                         ''is.gd'', ''buff.ly''])),
     Chr CHR ''/'', plus (Cls alnum), WordB]"

text \<open>\<^verbatim>\<open>KEYWORD_CATEGORIES\<close>, flattened in the order the two loops visit it.\<close>

definition KEYWORD_CATEGORIES :: "(string \<times> string list) list" where
  "KEYWORD_CATEGORIES = [
     (''urgency'', [''urgent'', ''immediately'', ''now'', ''today'', ''expire'', ''last chance'']),
     (''authority'', [''bank'', ''rbi'', ''government'', ''police'', ''official'', ''authorized'']),
     (''action'', [''click'', ''verify'', ''update'', ''confirm'', ''share'', ''pay'', ''send'']),
     (''threat'', [''blocked'', ''suspended'', ''terminated'', ''disconnected'', ''penalty'',
                   ''legal action'']),
     (''financial'', [''upi'', ''account'', ''payment'', ''transfer'', ''fee'', ''charge'',
                      ''refund''])]"

text \<open>\<^verbatim>\<open>_extract_keywords\<close>: the loop over the keywords, \<open>found\<close> being \<^verbatim>\<open>found_keywords\<close>.\<close>

fun keywords_loop :: "string \<Rightarrow> string list \<Rightarrow> string list \<Rightarrow> string list" where
  "keywords_loop text_lower [] found = found"
| "keywords_loop text_lower (keyword # ks) found =
     keywords_loop text_lower ks
       (if contains text_lower keyword \<and> keyword \<notin> set found then found @ [keyword]
        else found)"

definition extract_keywords :: "string \<Rightarrow> string list" where
  "extract_keywords text = keywords_loop (lower text) (concat (map snd KEYWORD_CATEGORIES)) []"

text \<open>\<^verbatim>\<open>_deduplicate\<close>: \<open>seen\<close> holds the lowered items met so far, \<open>result\<close> the items kept.\<close>

fun deduplicate_loop :: "string list \<Rightarrow> string set \<Rightarrow> string list \<Rightarrow> string list" where
  "deduplicate_loop [] seen result = result"
| "deduplicate_loop (item # items) seen result =
     (if lower item \<notin> seen then deduplicate_loop items (insert (lower item) seen) (result @ [item])
      else deduplicate_loop items seen result)"

definition deduplicate :: "string list \<Rightarrow> string list" where
  "deduplicate items = deduplicate_loop items {} []"

text \<open>\<^verbatim>\<open>_normalize_phones\<close>; \<^verbatim>\<open>re.sub(r'\D', '', phone)\<close> keeps the digits.\<close>

definition normalize_phone :: "string \<Rightarrow> string list" where
  "normalize_phone phone =
     (let digits = filter is_digit phone;
          digits = (if startswith digits ''0'' then drop 1 digits else digits);
          digits = (if startswith digits ''91'' \<and> length digits > 10 then drop 2 digits
                    else digits)
      in if length digits = 10 \<and> contains ''789'' [hd digits] then [''+91'' @ digits] else [])"

definition normalize_phones :: "string list \<Rightarrow> string list" where
  "normalize_phones phones = concat (map normalize_phone phones)"

record intelligence =
  upiIds :: "string list"
  bankAccounts :: "string list"
  phoneNumbers :: "string list"
  phishingLinks :: "string list"
  suspiciousKeywords :: "string list"

text \<open>\<^verbatim>\<open>IntelligenceExtractor.extract\<close> (\<open>extract\<close> alone is a reserved word here)\<close>

definition extract_intel :: "string \<Rightarrow> intelligence" where
  "extract_intel text =
     (let upi_matches = findall True pat_upiIds text;
          account_matches = findall True pat_bankAccounts text;
          phone_matches = findall False pat_phoneNumbers text;
          link_matches = findall False pat_phishingLinks text;
          short_link_matches = findall True pat_shortenedLinks text
      in \<lparr> upiIds = deduplicate upi_matches,
           bankAccounts = deduplicate account_matches,
           phoneNumbers = deduplicate (normalize_phones phone_matches),
           phishingLinks = deduplicate (link_matches @ map (\<lambda>m. ''http://'' @ m) short_link_matches),
           suspiciousKeywords = extract_keywords text \<rparr>)"

section \<open>The scam detector (\<^verbatim>\<open>app/core/detector.py\<close>)\<close>

text \<open>
  Python floats are modelled as exact rationals. A double can lie just below the exact
  value: with no category match, five authority keywords and six action keywords the exact
  confidence is 1/10 and the double is 0.09999999999999999, so that a comparison with 0.1
  can come out differently at such a text. The properties below are stated in terms of the
  confidence that \<open>detect\<close> returns and use no such comparison of a particular value, except
  on the scenario messages, whose confidences are far from every threshold.
  Every pattern of the detector is compiled
  with \<^verbatim>\<open>re.IGNORECASE\<close> and is only used through \<^verbatim>\<open>search\<close>, so its groups capture
  nothing that is read.
\<close>

definition ws :: regex where
  "ws = star (Cls [Space])"

definition words :: "string list \<Rightarrow> regex" where
  "words xs = Grp (alts (map str xs))"

definition rupee :: string where
  "rupee = [CHR 0xE2, CHR 0x82, CHR 0xB9]"

text \<open>The pattern lists of \<^verbatim>\<open>SCAM_PATTERNS\<close>, one per category.\<close>

definition UPI_FRAUD_patterns :: "regex list" where
  "UPI_FRAUD_patterns = [
     cat [str ''upi'', ws, str ''id''],
     cat [str ''upi'', ws, str ''payment''],
     cat [Chr CHR ''@'', words [''paytm'', ''ybl'', ''oksbi'', ''okhdfcbank'', ''okicici'']],
     cat [str ''send'', ws, str ''money''],
     cat [str ''transfer'', ws, str ''to''],
     cat [str ''verification'', ws, str ''fee''],
     cat [str ''activate'', ws, str ''upi'']]"

definition KYC_FRAUD_patterns :: "regex list" where
  "KYC_FRAUD_patterns = [
     cat [str ''kyc'', ws, words [''expired'', ''update'', ''verify'', ''pending'', ''blocked'']],
     cat [words [''update'', ''verify''], ws, str ''your'', ws,
          words [''kyc'', ''account'', ''details'']],
     cat [str ''account'', ws, str ''will'', ws, str ''be'', ws,
          words [''blocked'', ''suspended'', ''closed'']],
     cat [str ''account'', ws, words [''blocked'', ''suspended'', ''closed'', ''expiry'']],
     cat [str ''rbi'', ws, str ''mandate''],
     cat [str ''regulatory'', ws, str ''compliance'']]"

definition ELECTRICITY_SCAM_patterns :: "regex list" where
  "ELECTRICITY_SCAM_patterns = [
     cat [str ''electricity'', ws, str ''bill''],
     cat [str ''power'', ws, str ''supply'', ws, words [''cut'', ''disconnect'']],
     cat [str ''pay'', ws, str ''your'', ws, str ''bill''],
     cat [str ''overdue'', ws, words [''bill'', ''payment'']],
     cat [str ''connection'', ws, str ''will'', ws, str ''be'', ws,
          words [''cut'', ''terminated'']]]"

definition COURIER_SCAM_patterns :: "regex list" where
  "COURIER_SCAM_patterns = [
     cat [words [''fedex'', ''dhl'', ''aramex'', ''bluedart''], ws, str ''parcel''],
     cat [str ''custom'', opt (Chr CHR ''s''), ws, words [''duty'', ''clearance'', ''fee'']],
     cat [str ''package'', ws, str ''held''],
     cat [str ''delivery'', ws, words [''pending'', ''failed'']],
     cat [str ''custom'', opt (Chr CHR ''s''), ws, str ''office'']]"

definition JOB_SCAM_patterns :: "regex list" where
  "JOB_SCAM_patterns = [
     cat [words [''job'', ''work''], ws, words [''offer'', ''opportunity'', ''opening'']],
     cat [str ''amazon'', ws, words [''hiring'', ''recruitment'']],
     cat [str ''part'', opt (Cls [Space, Ch CHR ''-'']), str ''time'', ws,
          words [''job'', ''work'']],
     cat [str ''earn'', ws, Grp (Alt (str rupee) (plus (Cls [Digit])))],
     cat [str ''registration'', ws, str ''fee'']]"

definition LOTTERY_PRIZE_patterns :: "regex list" where
  "LOTTERY_PRIZE_patterns = [
     words [''won'', ''winner'', ''congratulations''],
     cat [str ''lottery'', ws, str ''prize''],
     cat [str ''claim'', ws, str ''your'', ws, words [''prize'', ''reward'']],
     cat [str ''lucky'', ws, str ''draw''],
     cat [str rupee, ws, plus (Cls [Digit]), ws, words [''lakh'', ''crore'']]]"

text \<open>\<^verbatim>\<open>SCAM_PATTERNS\<close> (and \<^verbatim>\<open>compiled_patterns\<close>), in the order of the dictionary.\<close>

definition SCAM_PATTERNS :: "(string \<times> regex list) list" where
  "SCAM_PATTERNS = [
     (''UPI_FRAUD'', UPI_FRAUD_patterns),
     (''KYC_FRAUD'', KYC_FRAUD_patterns),
     (''ELECTRICITY_SCAM'', ELECTRICITY_SCAM_patterns),
     (''COURIER_SCAM'', COURIER_SCAM_patterns),
     (''JOB_SCAM'', JOB_SCAM_patterns),
     (''LOTTERY_PRIZE'', LOTTERY_PRIZE_patterns)]"

definition URGENCY_KEYWORDS :: "string list" where
  "URGENCY_KEYWORDS = [''urgent'', ''immediate'', ''today'', ''now'', ''quickly'', ''hurry'',
     ''expire'', ''last chance'', ''limited time'', ''within 24 hours'',
     ''blocked'', ''suspended'', ''terminated'', ''disconnected'']"

definition AUTHORITY_KEYWORDS :: "string list" where
  "AUTHORITY_KEYWORDS = [''bank'', ''rbi'', ''government'', ''police'', ''cyber cell'',
     ''income tax'', ''customs'', ''courier company'', ''official'', ''authorized'']"

definition SUSPICIOUS_ACTIONS :: "string list" where
  "SUSPICIOUS_ACTIONS = [''click'', ''link'', ''verify'', ''update'', ''confirm'', ''share'',
     ''send'', ''pay'', ''transfer'', ''deposit'', ''fee'', ''charge'']"

definition high_risk_keywords :: "string list" where
  "high_risk_keywords = [''kyc'', ''upi'', ''blocked'', ''suspended'', ''verify'', ''urgent'']"

text \<open>\<^verbatim>\<open>sum(1 for pattern in patterns if pattern.search(message))\<close>\<close>

definition count_matches :: "regex list \<Rightarrow> string \<Rightarrow> nat" where
  "count_matches patterns message = length (filter (\<lambda>pattern. search True pattern message) patterns)"

text \<open>\<^verbatim>\<open>sum(1 for keyword in keywords if keyword in message_lower)\<close>\<close>

definition count_keywords :: "string list \<Rightarrow> string \<Rightarrow> nat" where
  "count_keywords keywords message_lower = length (filter (contains message_lower) keywords)"

definition keyword_score :: "string list \<Rightarrow> string \<Rightarrow> rat" where
  "keyword_score keywords message_lower =
     of_nat (count_keywords keywords message_lower) / of_nat (length keywords)"

text \<open>The first loop of \<^verbatim>\<open>_rule_based_detection\<close>: the dictionary \<^verbatim>\<open>scores\<close>, in insertion
  order, holding a category only when one of its patterns matched.\<close>

fun scores_loop :: "(string \<times> regex list) list \<Rightarrow> string \<Rightarrow> (string \<times> rat) list" where
  "scores_loop [] message = []"
| "scores_loop ((category, patterns) # others) message =
     (let matches = count_matches patterns message
      in if matches > 0
         then (category, of_nat matches / of_nat (length patterns)) # scores_loop others message
         else scores_loop others message)"

text \<open>\<^verbatim>\<open>max(scores, key=scores.get)\<close>: the scan keeps the first key of greatest value.\<close>

fun max_by_value :: "string \<times> rat \<Rightarrow> (string \<times> rat) list \<Rightarrow> string \<times> rat" where
  "max_by_value best [] = best"
| "max_by_value best (kv # kvs) = max_by_value (if snd kv > snd best then kv else best) kvs"

text \<open>The primary scam type and \<^verbatim>\<open>category_confidence\<close>.\<close>

definition primary_type :: "string \<Rightarrow> string \<times> rat" where
  "primary_type message =
     (case scores_loop SCAM_PATTERNS message of
        [] \<Rightarrow> (''GENERIC_FRAUD'', 0)
      | kv # kvs \<Rightarrow>
          (let (scam_type, category_confidence) = max_by_value kv kvs
           in (scam_type,
               if category_confidence > 0 then max (6 / 10) (category_confidence * 3)
               else category_confidence)))"

definition category_confidence :: "string \<Rightarrow> rat" where
  "category_confidence message = snd (primary_type message)"

record rule_result =
  r_confidence :: rat
  r_scam_type :: string
  r_signals :: "rat \<times> rat \<times> rat"

text \<open>\<^verbatim>\<open>ScamDetector._rule_based_detection\<close>\<close>

definition rule_based_detection :: "string \<Rightarrow> rule_result" where
  "rule_based_detection message =
     (let message_lower = lower message;
          urgency_score = keyword_score URGENCY_KEYWORDS message_lower;
          authority_score = keyword_score AUTHORITY_KEYWORDS message_lower;
          action_score = keyword_score SUSPICIOUS_ACTIONS message_lower;
          (scam_type, category_confidence) = primary_type message;
          signal_score = (urgency_score + authority_score + action_score) / 3;
          final_confidence = category_confidence * (7 / 10) + signal_score * (3 / 10);
          final_confidence =
            (if urgency_score > 1 / 10 \<and> authority_score > 5 / 100
             then min 1 (final_confidence + 15 / 100) else final_confidence);
          high_risk_count = count_keywords high_risk_keywords message_lower;
          final_confidence =
            (if high_risk_count \<ge> 2 then min 1 (final_confidence + 1 / 10)
             else final_confidence)
      in \<lparr> r_confidence = final_confidence, r_scam_type = scam_type,
           r_signals = (urgency_score, authority_score, action_score) \<rparr>)"

datatype sender = Scammer | User

record message =
  sender :: sender
  mtext :: string
  timestamp :: int

text \<open>\<^verbatim>\<open>ScamDetector.detect\<close>: \<^verbatim>\<open>(is_scam, confidence, scam_type)\<close>\<close>

definition detect :: "string \<Rightarrow> message list \<Rightarrow> bool \<times> rat \<times> string" where
  "detect msg conversation_history =
     (let rule_result = rule_based_detection msg
      in if r_confidence rule_result > 2 / 10
         then (True, r_confidence rule_result, r_scam_type rule_result)
         else if conversation_history \<noteq> [] \<and> r_confidence rule_result > 1 / 10
         then (True, r_confidence rule_result, r_scam_type rule_result)
         else (False, r_confidence rule_result, ''NONE''))"

section \<open>The session store (\<^verbatim>\<open>app/core/memory.py\<close>)\<close>

type_synonym timestamp = string

record persona_state =
  current_persona :: string
  confusion_level :: rat
  trust_level :: rat
  concern_level :: rat

text \<open>The session dictionary. The key \<^verbatim>\<open>finalized\<close> is absent until finalization and read
  with the default \<^verbatim>\<open>False\<close>; \<^verbatim>\<open>finalized_at\<close> is absent until then.\<close>

record session =
  session_id :: string
  created_at :: timestamp
  turn_count :: nat
  scam_detected :: bool
  scam_confidence :: rat
  scam_type :: string
  extracted_intelligence :: intelligence
  conversation_history :: "message list"
  persona :: persona_state
  last_message_time :: timestamp
  finalized :: bool
  finalized_at :: "timestamp option"

type_synonym store = "string \<rightharpoonup> session"

text \<open>
  What the outside world supplies during one call of \<^verbatim>\<open>process_message\<close>: the readings
  of the clock, the reply of the persona manager (a language model or a random choice from
  fixed pools) and whether the reporter's delivery succeeded.
\<close>

record env =
  now_created :: timestamp
  now_first_activity :: timestamp
  now_activity :: timestamp
  now_finalized :: timestamp
  persona_reply :: string
  send_ok :: bool

definition new_session :: "env \<Rightarrow> string \<Rightarrow> message list \<Rightarrow> session" where
  "new_session e sid history =
     \<lparr> session_id = sid, created_at = now_created e, turn_count = 0, scam_detected = False,
       scam_confidence = 0, scam_type = ''UNKNOWN'',
       extracted_intelligence = \<lparr> upiIds = [], bankAccounts = [], phoneNumbers = [],
         phishingLinks = [], suspiciousKeywords = [] \<rparr>,
       conversation_history = history,
       persona = \<lparr> current_persona = ''elderly_rajesh'', confusion_level = 7 / 10,
         trust_level = 8 / 10, concern_level = 3 / 10 \<rparr>,
       last_message_time = now_first_activity e, finalized = False, finalized_at = None \<rparr>"

text \<open>\<^verbatim>\<open>SessionMemory.get_or_create_session\<close>\<close>

definition get_or_create_session ::
  "env \<Rightarrow> string \<Rightarrow> message list \<Rightarrow> store \<Rightarrow> session \<times> store" where
  "get_or_create_session e sid history sessions =
     (case sessions sid of
        Some session \<Rightarrow> (session, sessions)
      | None \<Rightarrow> (let session = new_session e sid history
                 in (session, sessions(sid \<mapsto> session))))"

text \<open>\<^verbatim>\<open>SessionMemory.update_session\<close>\<close>

definition update_session :: "string \<Rightarrow> session \<Rightarrow> store \<Rightarrow> store" where
  "update_session sid session_data sessions =
     (if sid \<in> dom sessions then sessions(sid \<mapsto> session_data) else sessions)"

text \<open>\<^verbatim>\<open>SessionMemory.get_session\<close> and \<^verbatim>\<open>SessionMemory.delete_session\<close>\<close>

definition get_session :: "string \<Rightarrow> store \<Rightarrow> session option" where
  "get_session sid sessions = sessions sid"

definition delete_session :: "string \<Rightarrow> store \<Rightarrow> store" where
  "delete_session sid sessions = (if sid \<in> dom sessions then sessions(sid := None) else sessions)"

section \<open>The orchestrator (\<^verbatim>\<open>app/core/orchestrator.py\<close>)\<close>

record request =
  rq_sessionId :: string
  rq_message :: message
  rq_conversationHistory :: "message list"

record response =
  status :: string
  reply :: string

record payload =
  sessionId :: string
  scamDetected :: bool
  totalMessagesExchanged :: nat
  extractedIntelligence :: intelligence
  agentNotes :: string

text \<open>The orchestrator's memory and the calls made to \<^verbatim>\<open>send_final_result\<close> so far, oldest
  first.\<close>

record world =
  sessions :: store
  reports :: "payload list"

definition init_world :: world where
  "init_world = \<lparr> sessions = Map.empty, reports = [] \<rparr>"

text \<open>
  \<^verbatim>\<open>list(set(a) | set(b))\<close>: the distinct strings of both lists. Python leaves the order of
  the result open; the model fixes one, and no statement below depends on it.
\<close>

definition union_list :: "string list \<Rightarrow> string list \<Rightarrow> string list" where
  "union_list a b = remdups (a @ b)"

text \<open>\<^verbatim>\<open>_merge_intelligence\<close>; the extractor's result has all five keys.\<close>

definition merge_intelligence :: "intelligence \<Rightarrow> intelligence \<Rightarrow> intelligence" where
  "merge_intelligence existing new =
     \<lparr> upiIds = union_list (upiIds existing) (upiIds new),
       bankAccounts = union_list (bankAccounts existing) (bankAccounts new),
       phoneNumbers = union_list (phoneNumbers existing) (phoneNumbers new),
       phishingLinks = union_list (phishingLinks existing) (phishingLinks new),
       suspiciousKeywords = union_list (suspiciousKeywords existing) (suspiciousKeywords new) \<rparr>"

text \<open>The four ways \<^verbatim>\<open>_should_end_conversation\<close> returns \<^verbatim>\<open>True\<close>, named after its log lines.\<close>

datatype end_reason = CriticalIntelligence | GotIntelligence | SufficientEngagement | MaxTurns

text \<open>\<^verbatim>\<open>_should_end_conversation\<close>, with the branch taken; \<open>max_turns\<close> is
  \<^verbatim>\<open>settings.MAX_CONVERSATION_TURNS\<close> (15 unless the environment overrides it).\<close>

definition end_condition :: "int \<Rightarrow> session \<Rightarrow> end_reason option" where
  "end_condition max_turns session =
     (let intelligence = extracted_intelligence session;
          has_upi = length (upiIds intelligence) > 0;
          has_link = length (phishingLinks intelligence) > 0;
          total_entities = sum_list [length (upiIds intelligence),
                                     length (phishingLinks intelligence),
                                     length (bankAccounts intelligence),
                                     length (phoneNumbers intelligence)]
      in if (has_upi \<or> has_link) \<and> turn_count session \<ge> 1 then Some CriticalIntelligence
         else if turn_count session \<ge> 2 \<and> total_entities \<ge> 1 then Some GotIntelligence
         else if turn_count session \<ge> 3 then Some SufficientEngagement
         else if int (turn_count session) \<ge> max_turns then Some MaxTurns
         else None)"

definition should_end_conversation :: "int \<Rightarrow> session \<Rightarrow> bool" where
  "should_end_conversation max_turns session = (end_condition max_turns session \<noteq> None)"

definition MAX_CONVERSATION_TURNS :: int where
  "MAX_CONVERSATION_TURNS = 15"

text \<open>\<^verbatim>\<open>str(n)\<close> for a count.\<close>

fun string_of_nat :: "nat \<Rightarrow> string" where
  "string_of_nat n =
     (if n < 10 then [char_of (48 + n)]
      else string_of_nat (n div 10) @ [char_of (48 + n mod 10)])"

declare string_of_nat.simps [simp del]

text \<open>\<^verbatim>\<open>sep.join(parts)\<close>\<close>

fun join :: "string \<Rightarrow> string list \<Rightarrow> string" where
  "join sep [] = []"
| "join sep [p] = p"
| "join sep (p # q # ps) = p @ sep @ join sep (q # ps)"

text \<open>\<^verbatim>\<open>_generate_agent_notes\<close>\<close>

definition generate_agent_notes :: "session \<Rightarrow> string" where
  "generate_agent_notes session =
     (let intelligence = extracted_intelligence session;
          notes_parts = [''Scam type: '' @ scam_type session,
                         ''Engagement duration: '' @ string_of_nat (turn_count session) @ '' turns'']
            @ (if upiIds intelligence \<noteq> []
               then [''Extracted '' @ string_of_nat (length (upiIds intelligence)) @ '' UPI IDs'']
               else [])
            @ (if phishingLinks intelligence \<noteq> []
               then [''Detected '' @ string_of_nat (length (phishingLinks intelligence))
                     @ '' phishing links'']
               else [])
            @ [''Agent maintained Elderly Rajesh persona throughout'']
      in join ''. '' notes_parts @ ''.'')"

text \<open>The \<^verbatim>\<open>FinalResultPayload\<close> that \<^verbatim>\<open>_finalize_and_callback\<close> builds.\<close>

definition final_payload :: "string \<Rightarrow> session \<Rightarrow> payload" where
  "final_payload sid session =
     \<lparr> sessionId = sid, scamDetected = scam_detected session,
       totalMessagesExchanged = turn_count session,
       extractedIntelligence = extracted_intelligence session,
       agentNotes = generate_agent_notes session \<rparr>"

text \<open>\<^verbatim>\<open>_finalize_and_callback\<close>: nothing happens on a finalized session; otherwise the
  session is marked and stored, and the payload is handed to the reporter, whose outcome
  is only logged.\<close>

definition finalize_and_callback :: "env \<Rightarrow> string \<Rightarrow> session \<Rightarrow> world \<Rightarrow> session \<times> world" where
  "finalize_and_callback e sid session w =
     (if finalized session then (session, w)
      else
        (let session = session\<lparr> finalized := True, finalized_at := Some (now_finalized e) \<rparr>;
             w = w\<lparr> sessions := update_session sid session (sessions w) \<rparr>;
             payload = final_payload sid session
         in (session, w\<lparr> reports := reports w @ [payload] \<rparr>)))"

text \<open>Step 2 of \<^verbatim>\<open>process_message\<close>: the detection on the first turn. The second component
  says that the call returns at once with the neutral reply.\<close>

definition detection_step :: "string \<Rightarrow> message list \<Rightarrow> session \<Rightarrow> session \<times> bool" where
  "detection_step message_text history session =
     (if turn_count session = 0 then
        (let (is_scam, confidence, scam_type') = detect message_text history;
             session = session\<lparr> scam_detected := is_scam, scam_confidence := confidence,
                                 scam_type := scam_type' \<rparr>
         in if \<not> is_scam \<and> confidence < 1 / 10 then (session, True)
            else if \<not> is_scam
            then (session\<lparr> scam_detected := True, scam_confidence := max (5 / 10) confidence \<rparr>,
                  False)
            else (session, False))
      else (session, False))"

definition neutral_reply :: string where
  "neutral_reply = ''Thank you for your message. Have a nice day!''"

text \<open>\<^verbatim>\<open>ConversationOrchestrator.process_message\<close>\<close>

definition process_message :: "int \<Rightarrow> env \<Rightarrow> request \<Rightarrow> world \<Rightarrow> response \<times> world" where
  "process_message max_turns e request w =
     (let sid = rq_sessionId request;
          message_text = mtext (rq_message request);
          (session, mem) = get_or_create_session e sid (rq_conversationHistory request) (sessions w);
          w = w\<lparr> sessions := mem \<rparr>;
          (session, neutral) = detection_step message_text (rq_conversationHistory request) session
      in if neutral
         then (\<lparr> status = ''success'', reply = neutral_reply \<rparr>,
               w\<lparr> sessions := update_session sid session (sessions w) \<rparr>)
         else
           (let reply_text = persona_reply e;
                extracted = extract_intel message_text;
                session = session\<lparr> extracted_intelligence :=
                  merge_intelligence (extracted_intelligence session) extracted \<rparr>;
                session = session\<lparr> turn_count := turn_count session + 1,
                                    last_message_time := now_activity e \<rparr>;
                w = w\<lparr> sessions := update_session sid session (sessions w) \<rparr>;
                w = (if should_end_conversation max_turns session
                     then snd (finalize_and_callback e sid session w) else w)
            in (\<lparr> status = ''success'', reply = reply_text \<rparr>, w)))"

text \<open>A conversation with the service: the calls in order, each with what the outside
  world supplied to it.\<close>

fun run :: "int \<Rightarrow> (env \<times> request) list \<Rightarrow> world \<Rightarrow> world" where
  "run max_turns [] w = w"
| "run max_turns ((e, request) # calls) w =
     run max_turns calls (snd (process_message max_turns e request w))"

section \<open>Notions for stating the properties\<close>

text \<open>The session a call starts from: the stored one, or the fresh one it creates.\<close>

definition session_before :: "env \<Rightarrow> request \<Rightarrow> world \<Rightarrow> session" where
  "session_before e request w =
     fst (get_or_create_session e (rq_sessionId request) (rq_conversationHistory request)
            (sessions w))"

text \<open>The session after step 2 of the call.\<close>

definition session_detected :: "env \<Rightarrow> request \<Rightarrow> world \<Rightarrow> session" where
  "session_detected e request w =
     fst (detection_step (mtext (rq_message request)) (rq_conversationHistory request)
            (session_before e request w))"

text \<open>The call stops at the first-turn gate and answers with the neutral closing reply.\<close>

definition answered_neutrally :: "env \<Rightarrow> request \<Rightarrow> world \<Rightarrow> bool" where
  "answered_neutrally e request w =
     snd (detection_step (mtext (rq_message request)) (rq_conversationHistory request)
            (session_before e request w))"

text \<open>The session after step 5 of a call that passes the gate: intelligence merged, turn
  counted.\<close>

definition session_after_turn :: "env \<Rightarrow> request \<Rightarrow> world \<Rightarrow> session" where
  "session_after_turn e request w =
     (let session = session_detected e request w
      in session\<lparr> extracted_intelligence :=
             merge_intelligence (extracted_intelligence session)
               (extract_intel (mtext (rq_message request))),
           turn_count := turn_count session + 1,
           last_message_time := now_activity e \<rparr>)"

definition no_intelligence :: intelligence where
  "no_intelligence = \<lparr> upiIds = [], bankAccounts = [], phoneNumbers = [], phishingLinks = [],
                        suspiciousKeywords = [] \<rparr>"

text \<open>What the store holds for a session identifier; an unknown session counts as new.\<close>

definition intel_of :: "world \<Rightarrow> string \<Rightarrow> intelligence" where
  "intel_of w sid =
     (case sessions w sid of None \<Rightarrow> no_intelligence | Some s \<Rightarrow> extracted_intelligence s)"

definition turn_count_of :: "world \<Rightarrow> string \<Rightarrow> nat" where
  "turn_count_of w sid = (case sessions w sid of None \<Rightarrow> 0 | Some s \<Rightarrow> turn_count s)"

definition finalized_in :: "world \<Rightarrow> string \<Rightarrow> bool" where
  "finalized_in w sid = (case sessions w sid of None \<Rightarrow> False | Some s \<Rightarrow> finalized s)"

text \<open>The reporter calls made for a session identifier.\<close>

definition reports_for :: "world \<Rightarrow> string \<Rightarrow> payload list" where
  "reports_for w sid = filter (\<lambda>p. sessionId p = sid) (reports w)"

text \<open>The five collections of the accumulated intelligence.\<close>

definition intelligence_fields :: "(intelligence \<Rightarrow> string list) list" where
  "intelligence_fields = [upiIds, bankAccounts, phoneNumbers, phishingLinks, suspiciousKeywords]"

text \<open>The extraction results that the calls of a conversation contribute to a session: one
  for each call for that session that passes the gate.\<close>

fun contributions :: "int \<Rightarrow> (env \<times> request) list \<Rightarrow> world \<Rightarrow> string \<Rightarrow> intelligence list" where
  "contributions max_turns [] w sid = []"
| "contributions max_turns ((e, request) # calls) w sid =
     (if rq_sessionId request = sid \<and> \<not> answered_neutrally e request w
      then [extract_intel (mtext (rq_message request))] else [])
     @ contributions max_turns calls (snd (process_message max_turns e request w)) sid"

text \<open>A collection without two entries that differ only in case.\<close>

definition distinct_ignoring_case :: "string list \<Rightarrow> bool" where
  "distinct_ignoring_case xs = distinct (map lower xs)"

text \<open>The termination conditions a to d in the words of the specification, and the first
  of them that holds.\<close>

definition cond_a :: "session \<Rightarrow> bool" where
  "cond_a s = ((length (upiIds (extracted_intelligence s)) \<ge> 1
                \<or> length (phishingLinks (extracted_intelligence s)) \<ge> 1) \<and> turn_count s \<ge> 1)"

definition cond_b :: "session \<Rightarrow> bool" where
  "cond_b s = (turn_count s \<ge> 2
     \<and> length (upiIds (extracted_intelligence s)) + length (phishingLinks (extracted_intelligence s))
       + length (bankAccounts (extracted_intelligence s))
       + length (phoneNumbers (extracted_intelligence s)) \<ge> 1)"

definition cond_c :: "session \<Rightarrow> bool" where
  "cond_c s = (turn_count s \<ge> 3)"

definition cond_d :: "int \<Rightarrow> session \<Rightarrow> bool" where
  "cond_d max_turns s = (int (turn_count s) \<ge> max_turns)"

definition first_condition :: "int \<Rightarrow> session \<Rightarrow> end_reason option" where
  "first_condition max_turns s =
     (if cond_a s then Some CriticalIntelligence
      else if cond_b s then Some GotIntelligence
      else if cond_c s then Some SufficientEngagement
      else if cond_d max_turns s then Some MaxTurns
      else None)"

text \<open>Patterns without \<^verbatim>\<open>\b\<close>: what they match does not depend on the text around the
  match. All patterns of the detector are of this kind.\<close>

primrec no_boundary :: "regex \<Rightarrow> bool" where
  "no_boundary Eps = True"
| "no_boundary (Chr x) = True"
| "no_boundary (Cls items) = True"
| "no_boundary (Seq a b) = (no_boundary a \<and> no_boundary b)"
| "no_boundary (Alt a b) = (no_boundary a \<and> no_boundary b)"
| "no_boundary (Rep lo hi r) = no_boundary r"
| "no_boundary (Grp r) = no_boundary r"
| "no_boundary WordB = False"

text \<open>A position of the matcher when more text is appended to the subject.\<close>

definition extend :: "string \<Rightarrow> mstate \<Rightarrow> mstate" where
  "extend t st = MState (prev st) (rest st @ t) (grp st)"

text \<open>The score of one category, as the first loop of \<^verbatim>\<open>_rule_based_detection\<close> computes it.\<close>

definition category_score :: "regex list \<Rightarrow> string \<Rightarrow> rat" where
  "category_score patterns message =
     of_nat (count_matches patterns message) / of_nat (length patterns)"

section \<open>Concrete inputs\<close>

text \<open>One state of the outside world, and the messages of the scenarios examined below.\<close>

definition env0 :: env where
  "env0 = \<lparr> now_created = ''2026-01-01T10:00:00'', now_first_activity = ''2026-01-01T10:00:00'',
            now_activity = ''2026-01-01T10:00:01'', now_finalized = ''2026-01-01T10:00:02'',
            persona_reply = ''What is the matter? I am confused. Please tell me clearly what is the issue.'',
            send_ok = True \<rparr>"

definition kyc_message :: string where
  "kyc_message = ''Your SBI KYC expired. Update immediately at bit.ly/fake-kyc''"

definition hello_message :: string where
  "hello_message = ''hello''"

definition paytm_message :: string where
  "paytm_message = ''send to rahul.k@paytm now''"

definition office_message :: string where
  "office_message = ''contact me at office@company.com''"

definition upper_link_message :: string where
  "upper_link_message = ''send money http://EVIL.com''"

definition lower_link_message :: string where
  "lower_link_message = ''now http://evil.com''"

definition repeated_link_message :: string where
  "repeated_link_message = ''http://EVIL.com http://evil.com''"

definition scammer_says :: "string \<Rightarrow> string \<Rightarrow> request" where
  "scammer_says sid txt =
     \<lparr> rq_sessionId = sid,
       rq_message = \<lparr> sender = Scammer, mtext = txt, timestamp = 1767261600000 \<rparr>,
       rq_conversationHistory = [] \<rparr>"

section \<open>Rules for evaluating the definitions on concrete texts\<close>

text \<open>
  The classes of characters are defined through character codes. For running the matcher
  on a concrete text they are restated on the eight bits of a character, so that a test
  costs a few propositional steps.
\<close>

lemma code_Char: "code (Char b0 b1 b2 b3 b4 b5 b6 b7) =
  (if b0 then 1 else 0) + (if b1 then 2 else 0) + (if b2 then 4 else 0) + (if b3 then 8 else 0)
  + (if b4 then 16 else 0) + (if b5 then 32 else 0) + (if b6 then 64 else 0) + (if b7 then 128 else 0)"
  by (simp add: code_def)

lemma is_upper_Char: "is_upper (Char b0 b1 b2 b3 b4 b5 b6 b7) =
   (\<not> b7 \<and> b6 \<and> \<not> b5 \<and> (b0 \<or> b1 \<or> b2 \<or> b3 \<or> b4) \<and> \<not> (b4 \<and> b3 \<and> (b2 \<or> (b1 \<and> b0))))"
  unfolding is_upper_def code_Char
  by (cases b0; cases b1; cases b2; cases b3; cases b4; cases b5; cases b6; cases b7; simp)

lemma is_lower_Char: "is_lower (Char b0 b1 b2 b3 b4 b5 b6 b7) =
   (\<not> b7 \<and> b6 \<and> b5 \<and> (b0 \<or> b1 \<or> b2 \<or> b3 \<or> b4) \<and> \<not> (b4 \<and> b3 \<and> (b2 \<or> (b1 \<and> b0))))"
  unfolding is_lower_def code_Char
  by (cases b0; cases b1; cases b2; cases b3; cases b4; cases b5; cases b6; cases b7; simp)

lemma is_digit_Char: "is_digit (Char b0 b1 b2 b3 b4 b5 b6 b7) =
   (\<not> b7 \<and> \<not> b6 \<and> b5 \<and> b4 \<and> \<not> (b3 \<and> (b2 \<or> b1)))"
  unfolding is_digit_def code_Char
  by (cases b0; cases b1; cases b2; cases b3; cases b4; cases b5; cases b6; cases b7; simp)

lemma is_space_Char: "is_space (Char b0 b1 b2 b3 b4 b5 b6 b7) =
   (\<not> b7 \<and> \<not> b6 \<and>
     ((\<not> b5 \<and> \<not> b4 \<and> b3 \<and> ((\<not> b2 \<and> (b1 \<or> b0)) \<or> (b2 \<and> \<not> b1)))
      \<or> (\<not> b5 \<and> b4 \<and> b3 \<and> b2)
      \<or> (b5 \<and> \<not> b4 \<and> \<not> b3 \<and> \<not> b2 \<and> \<not> b1 \<and> \<not> b0)))"
  unfolding is_space_def code_Char
  by (cases b0; cases b1; cases b2; cases b3; cases b4; cases b5; cases b6; cases b7; simp)

lemma is_word_Char: "is_word (Char b0 b1 b2 b3 b4 b5 b6 b7) =
   (is_upper (Char b0 b1 b2 b3 b4 b5 b6 b7) \<or> is_lower (Char b0 b1 b2 b3 b4 b5 b6 b7)
    \<or> is_digit (Char b0 b1 b2 b3 b4 b5 b6 b7)
    \<or> (b0 \<and> b1 \<and> b2 \<and> b3 \<and> b4 \<and> \<not> b5 \<and> b6 \<and> \<not> b7))"
  unfolding is_word_def
  by (cases b0; cases b1; cases b2; cases b3; cases b4; cases b5; cases b6; cases b7; simp add: code_Char)

lemma lower_char_Char: "lower_char (Char b0 b1 b2 b3 b4 b5 b6 b7) =
   (if is_upper (Char b0 b1 b2 b3 b4 b5 b6 b7) then Char b0 b1 b2 b3 b4 True b6 b7
    else Char b0 b1 b2 b3 b4 b5 b6 b7)"
  unfolding lower_char_def
  by (cases b0; cases b1; cases b2; cases b3; cases b4; cases b5; cases b6; cases b7;
      simp add: is_upper_Char code_Char char_of_def bit_Suc_0_iff)

lemma upper_char_Char: "upper_char (Char b0 b1 b2 b3 b4 b5 b6 b7) =
   (if is_lower (Char b0 b1 b2 b3 b4 b5 b6 b7) then Char b0 b1 b2 b3 b4 False b6 b7
    else Char b0 b1 b2 b3 b4 b5 b6 b7)"
  unfolding upper_char_def
  by (cases b0; cases b1; cases b2; cases b3; cases b4; cases b5; cases b6; cases b7;
      simp add: is_lower_Char code_Char char_of_def bit_Suc_0_iff)

lemma in_item_ranges:
  "in_item (Rng CHR ''a'' CHR ''z'') c = is_lower c"
  "in_item (Rng CHR ''A'' CHR ''Z'') c = is_upper c"
  "in_item (Rng CHR ''0'' CHR ''9'') c = is_digit c"
  by (simp_all add: is_lower_def is_upper_def is_digit_def code_def)

text \<open>The matcher on a state given by its parts: these equations drive the evaluation of
  a pattern on a concrete text.\<close>

lemma ms_Eps: "ms ic Eps st = [st]"
  by simp

lemma ms_Chr: 
  "ms ic (Chr x) (MState p [] g) = []"
  "ms ic (Chr x) (MState p (c # cs) g) = (if chr_match ic x c then [MState (Some c) cs g] else [])"
  by simp_all

lemma ms_Cls:
  "ms ic (Cls items) (MState p [] g) = []"
  "ms ic (Cls items) (MState p (c # cs) g) = (if cls_match ic items c then [MState (Some c) cs g] else [])"
  by simp_all

lemma ms_Seq: "ms ic (Seq a b) st = concat (map (ms ic b) (ms ic a st))"
  by simp

lemma ms_Alt: "ms ic (Alt a b) st = ms ic a st @ ms ic b st"
  by simp

lemma ms_Grp: "ms ic (Grp r) (MState p s g) =
   map (\<lambda>st'. MState (prev st') (rest st') (Some (take (length s - length (rest st')) s)))
     (ms ic r (MState p s g))"
  by simp

lemma ms_WordB: "ms ic WordB (MState p s g) = (if at_boundary p s then [MState p s g] else [])"
  by simp

lemma ms_str:
  "ms ic (str []) st = [st]"
  "ms ic (str (x # w)) (MState p [] g) = []"
  "ms ic (str (x # w)) (MState p (c # cs) g) =
     (if chr_match ic x c then ms ic (str w) (MState (Some c) cs g) else [])"
  by (cases w; simp add: str_def)+

lemma ms_Rep_Cls_None:
  "ms ic (Rep lo None (Cls items)) (MState p [] g) = (if lo = 0 then [MState p [] g] else [])"
  "ms ic (Rep lo None (Cls items)) (MState p (c # cs) g) =
     (if cls_match ic items c then ms ic (Rep (lo - 1) None (Cls items)) (MState (Some c) cs g)
      else []) @ (if lo = 0 then [MState p (c # cs) g] else [])"
  by (simp_all add: rep_ms.simps [of _ _ "Suc n" for n] rep_ms.simps [of _ _ 0])

lemma ms_Rep_Cls_Some:
  "ms ic (Rep lo (Some h) (Cls items)) (MState p [] g) = (if lo = 0 then [MState p [] g] else [])"
  "ms ic (Rep lo (Some h) (Cls items)) (MState p (c # cs) g) =
     (if h = 0 then (if lo = 0 then [MState p (c # cs) g] else [])
      else (if cls_match ic items c
            then ms ic (Rep (lo - 1) (Some (h - 1)) (Cls items)) (MState (Some c) cs g)
            else []) @ (if lo = 0 then [MState p (c # cs) g] else []))"
  by (simp_all add: rep_ms.simps [of _ _ h])

lemma ms_Rep_other:
  "ms ic (Rep lo hi (Seq a b)) (MState p s g) =
     rep_ms (ms ic (Seq a b)) lo (case hi of None \<Rightarrow> length s | Some h \<Rightarrow> h) (MState p s g)"
  "ms ic (Rep lo hi (Alt a b)) (MState p s g) =
     rep_ms (ms ic (Alt a b)) lo (case hi of None \<Rightarrow> length s | Some h \<Rightarrow> h) (MState p s g)"
  "ms ic (Rep lo hi (Chr x)) (MState p s g) =
     rep_ms (ms ic (Chr x)) lo (case hi of None \<Rightarrow> length s | Some h \<Rightarrow> h) (MState p s g)"
  "ms ic (Rep lo hi (str w)) (MState p s g) =
     rep_ms (ms ic (str w)) lo (case hi of None \<Rightarrow> length s | Some h \<Rightarrow> h) (MState p s g)"
  by (cases hi; simp)+

lemma rep_ms_eval:
  "rep_ms f lo 0 st = (if lo = 0 then [st] else [])"
  "rep_ms f lo (Suc k) (MState p s g) =
     concat (map (rep_ms f (lo - 1) k)
       (filter (\<lambda>st'. length (rest st') < length s) (f (MState p s g))))
     @ (if lo = 0 then [MState p s g] else [])"
  by (simp_all add: rep_ms.simps [of _ _ "Suc k"] rep_ms.simps [of _ _ 0])

lemma search_from_eval:
  "search_from ic r p [] = (ms ic r (MState p [] None) \<noteq> [])"
  "search_from ic r p (c # cs) =
     (if ms ic r (MState p (c # cs) None) \<noteq> [] then True else search_from ic r (Some c) cs)"
  by simp_all

lemma contains_eval:
  "contains [] w = (w = [])"
  "contains (c # cs) w = (if startswith (c # cs) w then True else contains cs w)"
  by simp_all

lemma startswith_eval:
  "startswith s [] = True"
  "startswith [] (x # xs) = False"
  "startswith (c # cs) (x # xs) = (if c = x then startswith cs xs else False)"
  by simp_all

lemma has_group_str: "has_group (str w) = False"
proof (induction w)
  case Nil
  show ?case by (simp add: str_def)
next
  case (Cons x w)
  then show ?case by (cases w) (simp_all add: str_def)
qed

lemmas ev_char = is_upper_Char is_lower_Char is_digit_Char is_space_Char is_word_Char
  lower_char_Char upper_char_Char in_item_ranges in_item.simps(1,3,4) in_cls_def
  list_ex_Nil_iff list_ex_Cons_iff
  chr_match_def cls_match_def at_boundary_def char.inject simp_thms if_True if_False
  option.case list.case

lemmas ev_nat = list.size(3) length_Cons nat.distinct nat.inject diff_Suc_1 diff_Suc_Suc
  diff_zero diff_0_eq_0 Suc_less_eq zero_less_Suc less_nat_zero_code One_nat_def
  numeral_eq_Suc pred_numeral_simps BitM.simps

lemmas ev_ms = ms_Eps ms_Chr ms_Cls ms_Seq ms_Alt ms_Grp ms_WordB ms_str ms_Rep_Cls_None
  ms_Rep_Cls_Some ms_Rep_other rep_ms_eval
  mstate.sel concat.simps list.map filter.simps append.simps
  search_from_eval search_def list.distinct list.inject take_Suc_Cons take_0 take.simps(1)
  cat.simps alts.simps opt_def star_def plus_def ws_def words_def

lemmas ev_text = lower_def contains_eval startswith_eval

lemmas ev_findall = findall_def findall_from.simps found_item_def has_group.simps has_group_str
  hexdigit_def alnum_def upi_providers_def

lemmas ev = ev_char ev_nat ev_ms ev_text ev_findall

lemmas ev_cong = if_weak_cong list.case_cong_weak option.case_cong_weak

section \<open>The scenario messages, evaluated\<close>

lemmas ev_count = count_matches_def count_keywords_def

lemma pattern_counts:
  "length UPI_FRAUD_patterns = 7" "length KYC_FRAUD_patterns = 6"
  "length ELECTRICITY_SCAM_patterns = 5" "length COURIER_SCAM_patterns = 5"
  "length JOB_SCAM_patterns = 5" "length LOTTERY_PRIZE_patterns = 5"
  by (simp_all add: UPI_FRAUD_patterns_def KYC_FRAUD_patterns_def ELECTRICITY_SCAM_patterns_def
      COURIER_SCAM_patterns_def JOB_SCAM_patterns_def LOTTERY_PRIZE_patterns_def)

lemma keyword_counts:
  "length URGENCY_KEYWORDS = 14" "length AUTHORITY_KEYWORDS = 10"
  "length SUSPICIOUS_ACTIONS = 12"
  by (simp_all add: URGENCY_KEYWORDS_def AUTHORITY_KEYWORDS_def SUSPICIOUS_ACTIONS_def)

lemma kyc_upi: "count_matches UPI_FRAUD_patterns kyc_message = 0"
  by (simp only: ev_count UPI_FRAUD_patterns_def kyc_message_def ev cong: ev_cong)

lemma kyc_kyc: "count_matches KYC_FRAUD_patterns kyc_message = 1"
  by (simp only: ev_count KYC_FRAUD_patterns_def kyc_message_def ev cong: ev_cong)

lemma kyc_electricity: "count_matches ELECTRICITY_SCAM_patterns kyc_message = 0"
  by (simp only: ev_count ELECTRICITY_SCAM_patterns_def kyc_message_def ev cong: ev_cong)

lemma kyc_courier: "count_matches COURIER_SCAM_patterns kyc_message = 0"
  by (simp only: ev_count COURIER_SCAM_patterns_def kyc_message_def ev cong: ev_cong)

lemma kyc_job: "count_matches JOB_SCAM_patterns kyc_message = 0"
  by (simp only: ev_count JOB_SCAM_patterns_def rupee_def kyc_message_def ev cong: ev_cong)

lemma kyc_lottery: "count_matches LOTTERY_PRIZE_patterns kyc_message = 0"
  by (simp only: ev_count LOTTERY_PRIZE_patterns_def rupee_def kyc_message_def ev cong: ev_cong)

lemma kyc_urgency: "count_keywords URGENCY_KEYWORDS (lower kyc_message) = 2"
  by (simp only: ev_count URGENCY_KEYWORDS_def kyc_message_def ev cong: ev_cong)

lemma kyc_authority: "count_keywords AUTHORITY_KEYWORDS (lower kyc_message) = 0"
  by (simp only: ev_count AUTHORITY_KEYWORDS_def kyc_message_def ev cong: ev_cong)

lemma kyc_actions: "count_keywords SUSPICIOUS_ACTIONS (lower kyc_message) = 1"
  by (simp only: ev_count SUSPICIOUS_ACTIONS_def kyc_message_def ev cong: ev_cong)

lemma kyc_high_risk: "count_keywords high_risk_keywords (lower kyc_message) = 1"
  by (simp only: ev_count high_risk_keywords_def kyc_message_def ev cong: ev_cong)

lemmas kyc_counts = kyc_upi kyc_kyc kyc_electricity kyc_courier kyc_job kyc_lottery
  kyc_urgency kyc_authority kyc_actions kyc_high_risk

lemma kyc_scores: "scores_loop SCAM_PATTERNS kyc_message = [(''KYC_FRAUD'', 1 / 6)]"
  by (simp add: SCAM_PATTERNS_def kyc_counts pattern_counts)

lemma kyc_rule_based:
  "rule_based_detection kyc_message =
     \<lparr> r_confidence = 1859 / 4200, r_scam_type = ''KYC_FRAUD'', r_signals = (1 / 7, 0, 1 / 12) \<rparr>"
  by (simp add: rule_based_detection_def primary_type_def keyword_score_def kyc_scores
      kyc_counts keyword_counts)

lemma kyc_detect: "detect kyc_message [] = (True, 1859 / 4200, ''KYC_FRAUD'')"
  by (simp add: detect_def kyc_rule_based)


lemmas ev_extract = extract_intel_def pat_upiIds_def pat_bankAccounts_def pat_phoneNumbers_def
  pat_phishingLinks_def pat_shortenedLinks_def
  deduplicate_def deduplicate_loop.simps normalize_phones_def normalize_phone_def Let_def
  extract_keywords_def KEYWORD_CATEGORIES_def keywords_loop.simps snd_conv
  list.set insert_iff empty_iff drop_Suc_Cons drop_0 list.sel

lemma kyc_extract:
  "extract_intel kyc_message =
     \<lparr> upiIds = [], bankAccounts = [], phoneNumbers = [], phishingLinks = [''http://bit.ly''],
       suspiciousKeywords = [''immediately'', ''expire'', ''update''] \<rparr>"
  by (simp only: ev_extract kyc_message_def ev cong: ev_cong)

lemma paytm_upi: "upiIds (extract_intel paytm_message) = [''paytm'']"
  by (simp only: ev_extract paytm_message_def ev intelligence.simps cong: ev_cong)

lemma office_upi: "upiIds (extract_intel office_message) = []"
  by (simp only: ev_extract office_message_def ev intelligence.simps cong: ev_cong)

lemma phones_normalized:
  "normalize_phones [''+91 9876543210''] = [''+919876543210'']"
  "normalize_phones [''09876543210''] = [''+919876543210'']"
  "normalize_phones [''919876543210''] = [''+919876543210'']"
  "normalize_phones [''12345''] = []"
  by (simp_all only: ev_extract ev cong: ev_cong)

lemma phones_extracted:
  "phoneNumbers (extract_intel ''+91 9876543210'') = [''+919876543210'']"
  "phoneNumbers (extract_intel ''09876543210'') = [''+919876543210'']"
  "phoneNumbers (extract_intel ''919876543210'') = [''+919876543210'']"
  "phoneNumbers (extract_intel ''12345'') = []"
  "findall False pat_phoneNumbers ''12345'' = []"
  by (simp_all only: ev_extract ev intelligence.simps cong: ev_cong)

lemma hello_counts:
  "count_matches UPI_FRAUD_patterns hello_message = 0"
  "count_matches KYC_FRAUD_patterns hello_message = 0"
  "count_matches ELECTRICITY_SCAM_patterns hello_message = 0"
  "count_matches COURIER_SCAM_patterns hello_message = 0"
  "count_matches JOB_SCAM_patterns hello_message = 0"
  "count_matches LOTTERY_PRIZE_patterns hello_message = 0"
  "count_keywords URGENCY_KEYWORDS (lower hello_message) = 0"
  "count_keywords AUTHORITY_KEYWORDS (lower hello_message) = 0"
  "count_keywords SUSPICIOUS_ACTIONS (lower hello_message) = 0"
  "count_keywords high_risk_keywords (lower hello_message) = 0"
  by (simp_all only: ev_count UPI_FRAUD_patterns_def KYC_FRAUD_patterns_def
      ELECTRICITY_SCAM_patterns_def COURIER_SCAM_patterns_def JOB_SCAM_patterns_def
      LOTTERY_PRIZE_patterns_def rupee_def URGENCY_KEYWORDS_def AUTHORITY_KEYWORDS_def
      SUSPICIOUS_ACTIONS_def high_risk_keywords_def hello_message_def ev cong: ev_cong)

lemma hello_scores: "scores_loop SCAM_PATTERNS hello_message = []"
  by (simp add: SCAM_PATTERNS_def hello_counts)

lemma hello_rule_based:
  "rule_based_detection hello_message =
     \<lparr> r_confidence = 0, r_scam_type = ''GENERIC_FRAUD'', r_signals = (0, 0, 0) \<rparr>"
  by (simp add: rule_based_detection_def primary_type_def keyword_score_def hello_scores
      hello_counts)

lemma hello_detect: "detect hello_message [] = (False, 0, ''NONE'')"
  by (simp add: detect_def hello_rule_based)

lemma upper_link_counts:
  "count_matches UPI_FRAUD_patterns upper_link_message = 1"
  "count_matches KYC_FRAUD_patterns upper_link_message = 0"
  "count_matches ELECTRICITY_SCAM_patterns upper_link_message = 0"
  "count_matches COURIER_SCAM_patterns upper_link_message = 0"
  "count_matches JOB_SCAM_patterns upper_link_message = 0"
  "count_matches LOTTERY_PRIZE_patterns upper_link_message = 0"
  "count_keywords URGENCY_KEYWORDS (lower upper_link_message) = 0"
  "count_keywords AUTHORITY_KEYWORDS (lower upper_link_message) = 0"
  "count_keywords SUSPICIOUS_ACTIONS (lower upper_link_message) = 1"
  "count_keywords high_risk_keywords (lower upper_link_message) = 0"
  by (simp_all only: ev_count UPI_FRAUD_patterns_def KYC_FRAUD_patterns_def
      ELECTRICITY_SCAM_patterns_def COURIER_SCAM_patterns_def JOB_SCAM_patterns_def
      LOTTERY_PRIZE_patterns_def rupee_def URGENCY_KEYWORDS_def AUTHORITY_KEYWORDS_def
      SUSPICIOUS_ACTIONS_def high_risk_keywords_def upper_link_message_def ev cong: ev_cong)

lemma upper_link_detect: "fst (detect upper_link_message [])"
  by (simp add: detect_def rule_based_detection_def primary_type_def keyword_score_def
      SCAM_PATTERNS_def upper_link_counts pattern_counts keyword_counts)

lemma link_extracts:
  "phishingLinks (extract_intel upper_link_message) = [''http://EVIL.com'']"
  "phishingLinks (extract_intel lower_link_message) = [''http://evil.com'']"
  by (simp_all only: ev_extract upper_link_message_def lower_link_message_def ev
      intelligence.simps cong: ev_cong)

lemma lower_equal: "lower ''http://EVIL.com'' = lower ''http://evil.com''"
  by (simp only: ev cong: ev_cong)

lemma repeated_link_extract:
  "phishingLinks (extract_intel repeated_link_message) = [''http://EVIL.com'']"
  by (simp only: ev_extract repeated_link_message_def ev intelligence.simps cong: ev_cong)

lemma phones_boundary:
  "filter is_digit ''9198765432'' = ''9198765432''"
  "filter is_digit ''1234567890'' = ''1234567890''"
  "filter is_digit ''+91-98765 43210'' = ''919876543210''"
  by (simp_all only: filter.simps ev cong: ev_cong)

lemma hello_confidence: "r_confidence (rule_based_detection hello_message) = 0"
  by (simp add: hello_rule_based)

section \<open>One call of the orchestrator, seen from outside\<close>

lemma get_or_create_session_fst:
  "fst (get_or_create_session e sid h st) = (case st sid of None \<Rightarrow> new_session e sid h | Some s \<Rightarrow> s)"
  by (simp add: get_or_create_session_def Let_def split: option.splits)

lemma get_or_create_session_snd:
  "snd (get_or_create_session e sid h st) = st(sid \<mapsto> fst (get_or_create_session e sid h st))"
  by (auto simp add: get_or_create_session_def Let_def split: option.splits)

lemma update_after_create:
  "update_session sid s (snd (get_or_create_session e sid h st)) = st(sid \<mapsto> s)"
  by (simp add: get_or_create_session_snd update_session_def)

lemma update_after_update:
  "update_session sid s' (st(sid \<mapsto> s)) = st(sid \<mapsto> s')"
  by (simp add: update_session_def)

lemma process_message_neutral:
  assumes "answered_neutrally e request w"
  shows "process_message max_turns e request w =
     (\<lparr> status = ''success'', reply = neutral_reply \<rparr>,
      w\<lparr> sessions := (sessions w)(rq_sessionId request \<mapsto> session_detected e request w) \<rparr>)"
  using assms
  by (simp add: process_message_def answered_neutrally_def session_detected_def
      session_before_def update_after_create Let_def split_def)

lemma process_message_engaged:
  assumes "\<not> answered_neutrally e request w"
  shows "process_message max_turns e request w =
     (\<lparr> status = ''success'', reply = persona_reply e \<rparr>,
      (let s = session_after_turn e request w; sid = rq_sessionId request
       in if should_end_conversation max_turns s \<and> \<not> finalized s
          then w\<lparr> sessions := (sessions w)(sid \<mapsto>
                    s\<lparr> finalized := True, finalized_at := Some (now_finalized e) \<rparr>),
                  reports := reports w @ [final_payload sid
                    (s\<lparr> finalized := True, finalized_at := Some (now_finalized e) \<rparr>)] \<rparr>
          else w\<lparr> sessions := (sessions w)(sid \<mapsto> s) \<rparr>))"
  using assms
  by (simp add: process_message_def answered_neutrally_def session_detected_def
      session_after_turn_def session_before_def update_after_create finalize_and_callback_def
      update_after_update Let_def split_def)


lemma detection_step_keeps [simp]:
  "turn_count (fst (detection_step m h s)) = turn_count s"
  "finalized (fst (detection_step m h s)) = finalized s"
  "extracted_intelligence (fst (detection_step m h s)) = extracted_intelligence s"
  by (simp_all add: detection_step_def Let_def split_def)

lemma detection_step_neutral_first_turn:
  "snd (detection_step m h s) \<Longrightarrow> turn_count s = 0"
  by (simp add: detection_step_def Let_def split_def split: if_splits)

lemma session_before_stored:
  "session_before e request w =
     (case sessions w (rq_sessionId request) of
        None \<Rightarrow> new_session e (rq_sessionId request) (rq_conversationHistory request)
      | Some s \<Rightarrow> s)"
  by (simp add: session_before_def get_or_create_session_fst)

lemma session_before_facts:
  "turn_count (session_before e request w) = turn_count_of w (rq_sessionId request)"
  "finalized (session_before e request w) = finalized_in w (rq_sessionId request)"
  "extracted_intelligence (session_before e request w) = intel_of w (rq_sessionId request)"
  by (simp_all add: session_before_stored turn_count_of_def finalized_in_def intel_of_def
      new_session_def no_intelligence_def split: option.splits)

lemma session_after_turn_facts:
  "turn_count (session_after_turn e request w) = turn_count_of w (rq_sessionId request) + 1"
  "finalized (session_after_turn e request w) = finalized_in w (rq_sessionId request)"
  "extracted_intelligence (session_after_turn e request w) =
     merge_intelligence (intel_of w (rq_sessionId request))
       (extract_intel (mtext (rq_message request)))"
  by (simp_all add: session_after_turn_def session_detected_def Let_def session_before_facts)

lemma end_condition_first: "end_condition max_turns s = first_condition max_turns s"
  by (auto simp add: end_condition_def first_condition_def cond_a_def cond_b_def cond_c_def
      cond_d_def Let_def Suc_le_eq)

lemma should_end_iff:
  "should_end_conversation max_turns s \<longleftrightarrow> cond_a s \<or> cond_b s \<or> cond_c s \<or> cond_d max_turns s"
  by (auto simp add: should_end_conversation_def end_condition_first first_condition_def)

lemma cond_finalized_irrelevant:
  "cond_a (s\<lparr>finalized := f, finalized_at := t\<rparr>) = cond_a s"
  "cond_b (s\<lparr>finalized := f, finalized_at := t\<rparr>) = cond_b s"
  "cond_c (s\<lparr>finalized := f, finalized_at := t\<rparr>) = cond_c s"
  "cond_d mx (s\<lparr>finalized := f, finalized_at := t\<rparr>) = cond_d mx s"
  by (simp_all add: cond_a_def cond_b_def cond_c_def cond_d_def)


lemma session_detected_facts:
  "turn_count (session_detected e request w) = turn_count_of w (rq_sessionId request)"
  "finalized (session_detected e request w) = finalized_in w (rq_sessionId request)"
  "extracted_intelligence (session_detected e request w) = intel_of w (rq_sessionId request)"
  by (simp_all add: session_detected_def session_before_facts)

lemma answered_neutrally_iff:
  "answered_neutrally e request w \<longleftrightarrow>
     turn_count_of w (rq_sessionId request) = 0
     \<and> \<not> fst (detect (mtext (rq_message request)) (rq_conversationHistory request))
     \<and> fst (snd (detect (mtext (rq_message request)) (rq_conversationHistory request))) < 1 / 10"
  by (auto simp add: answered_neutrally_def detection_step_def Let_def split_def
      session_before_facts)

text \<open>What one call does to the store and to the reporter, seen per session identifier.\<close>

lemma step_sessions:
  "sessions (snd (process_message max_turns e request w)) sid =
     (if sid \<noteq> rq_sessionId request then sessions w sid
      else if answered_neutrally e request w then Some (session_detected e request w)
      else if should_end_conversation max_turns (session_after_turn e request w)
              \<and> \<not> finalized_in w sid
      then Some ((session_after_turn e request w)
                   \<lparr> finalized := True, finalized_at := Some (now_finalized e) \<rparr>)
      else Some (session_after_turn e request w))"
  by (cases "answered_neutrally e request w")
     (simp_all add: process_message_neutral process_message_engaged Let_def
        session_after_turn_facts)

lemma step_reports:
  "reports (snd (process_message max_turns e request w)) =
     reports w @
     (if \<not> answered_neutrally e request w
         \<and> should_end_conversation max_turns (session_after_turn e request w)
         \<and> \<not> finalized_in w (rq_sessionId request)
      then [final_payload (rq_sessionId request)
              ((session_after_turn e request w)
                 \<lparr> finalized := True, finalized_at := Some (now_finalized e) \<rparr>)]
      else [])"
  by (cases "answered_neutrally e request w")
     (simp_all add: process_message_neutral process_message_engaged Let_def
        session_after_turn_facts)

lemma step_finalized:
  "finalized_in (snd (process_message max_turns e request w)) sid \<longleftrightarrow>
     finalized_in w sid
     \<or> (sid = rq_sessionId request \<and> \<not> answered_neutrally e request w
         \<and> should_end_conversation max_turns (session_after_turn e request w))"
  by (simp add: finalized_in_def [of "snd _"] step_sessions session_detected_facts
      session_after_turn_facts) (auto simp add: finalized_in_def)

lemma step_turn_count:
  "turn_count_of (snd (process_message max_turns e request w)) sid =
     (if sid = rq_sessionId request \<and> \<not> answered_neutrally e request w
      then turn_count_of w sid + 1 else turn_count_of w sid)"
  by (simp add: turn_count_of_def [of "snd _"] step_sessions session_detected_facts
      session_after_turn_facts) (auto simp add: turn_count_of_def)

lemma step_intel:
  "intel_of (snd (process_message max_turns e request w)) sid =
     (if sid = rq_sessionId request \<and> \<not> answered_neutrally e request w
      then merge_intelligence (intel_of w sid) (extract_intel (mtext (rq_message request)))
      else intel_of w sid)"
  by (simp add: intel_of_def [of "snd _"] step_sessions session_detected_facts
      session_after_turn_facts) (auto simp add: intel_of_def)

lemma final_payload_sessionId [simp]: "sessionId (final_payload sid s) = sid"
  by (simp add: final_payload_def)

lemma step_reports_for:
  "reports_for (snd (process_message max_turns e request w)) sid =
     reports_for w sid @
     (if sid = rq_sessionId request \<and> \<not> answered_neutrally e request w
         \<and> should_end_conversation max_turns (session_after_turn e request w)
         \<and> \<not> finalized_in w sid
      then [final_payload sid
              ((session_after_turn e request w)
                 \<lparr> finalized := True, finalized_at := Some (now_finalized e) \<rparr>)]
      else [])"
  by (auto simp add: reports_for_def step_reports)

text \<open>Every reported session is finalized, and is reported once: this holds when the
  service starts and each call keeps it.\<close>

lemma reported_invariant_step:
  assumes "reports_for w sid \<noteq> [] \<longrightarrow> finalized_in w sid"
    and "length (reports_for w sid) \<le> 1"
  shows "(reports_for (snd (process_message max_turns e request w)) sid \<noteq> []
            \<longrightarrow> finalized_in (snd (process_message max_turns e request w)) sid)
         \<and> length (reports_for (snd (process_message max_turns e request w)) sid) \<le> 1"
  using assms by (auto simp add: step_reports_for step_finalized)

lemma reported_invariant_run:
  assumes "reports_for w sid \<noteq> [] \<longrightarrow> finalized_in w sid"
    and "length (reports_for w sid) \<le> 1"
  shows "(reports_for (run max_turns calls w) sid \<noteq> []
            \<longrightarrow> finalized_in (run max_turns calls w) sid)
         \<and> length (reports_for (run max_turns calls w) sid) \<le> 1"
  using assms
proof (induction calls arbitrary: w)
  case Nil
  then show ?case by simp
next
  case (Cons call calls)
  obtain e request where call: "call = (e, request)" by (cases call)
  from reported_invariant_step [OF Cons.prems, of max_turns e request]
  show ?case
    unfolding call run.simps
    by (intro Cons.IH) simp_all
qed

lemma finalized_run:
  "finalized_in w sid \<Longrightarrow> finalized_in (run max_turns calls w) sid"
proof (induction calls arbitrary: w)
  case Nil
  then show ?case by simp
next
  case (Cons call calls)
  obtain e request where call: "call = (e, request)" by (cases call)
  from Cons.prems have "finalized_in (snd (process_message max_turns e request w)) sid"
    by (simp add: step_finalized)
  then show ?case
    unfolding call run.simps by (rule Cons.IH)
qed

lemma init_world_facts:
  "reports_for init_world sid = []"
  "intel_of init_world sid = no_intelligence"
  "turn_count_of init_world sid = 0"
  "\<not> finalized_in init_world sid"
  by (simp_all add: init_world_def reports_for_def intel_of_def turn_count_of_def
      finalized_in_def)

lemma set_union_list [simp]: "set (union_list a b) = set a \<union> set b"
  by (simp add: union_list_def)

lemma distinct_union_list [simp]: "distinct (union_list a b)"
  by (simp add: union_list_def)

lemma merge_fields:
  assumes "f \<in> set intelligence_fields"
  shows "f (merge_intelligence a b) = union_list (f a) (f b)"
  using assms by (auto simp add: intelligence_fields_def merge_intelligence_def)

lemma no_intelligence_fields:
  assumes "f \<in> set intelligence_fields"
  shows "f no_intelligence = []"
  using assms by (auto simp add: intelligence_fields_def no_intelligence_def)

lemma run_intel:
  assumes f: "f \<in> set intelligence_fields"
  shows "set (f (intel_of (run max_turns calls w) sid)) =
           set (f (intel_of w sid)) \<union> (\<Union>x \<in> set (contributions max_turns calls w sid). set (f x))"
proof (induction calls arbitrary: w)
  case Nil
  show ?case by simp
next
  case (Cons call calls)
  obtain e request where call: "call = (e, request)" by (cases call)
  show ?case
    unfolding call run.simps contributions.simps
    by (subst Cons.IH) (auto simp add: step_intel merge_fields [OF f])
qed

lemma run_distinct:
  assumes f: "f \<in> set intelligence_fields"
    and d: "distinct (f (intel_of w sid))"
  shows "distinct (f (intel_of (run max_turns calls w) sid))"
  using d
proof (induction calls arbitrary: w)
  case Nil
  then show ?case by simp
next
  case (Cons call calls)
  obtain e request where call: "call = (e, request)" by (cases call)
  from Cons.prems
  have "distinct (f (intel_of (snd (process_message max_turns e request w)) sid))"
    by (simp add: step_intel merge_fields [OF f])
  then show ?case
    unfolding call run.simps by (rule Cons.IH)
qed

section \<open>The scenarios, call by call\<close>

lemma init_world_reports [simp]: "reports init_world = []"
  by (simp add: init_world_def)

lemma kyc_not_neutral: "\<not> answered_neutrally e (scammer_says sid kyc_message) w"
  by (simp add: answered_neutrally_iff scammer_says_def kyc_detect)

lemma hello_neutral: "answered_neutrally e (scammer_says sid hello_message) init_world"
  by (simp add: answered_neutrally_iff scammer_says_def hello_detect init_world_facts)

lemma upper_link_not_neutral: "\<not> answered_neutrally e (scammer_says sid upper_link_message) w"
  by (simp add: answered_neutrally_iff scammer_says_def upper_link_detect)

lemma scammer_says_sel [simp]:
  "rq_sessionId (scammer_says sid txt) = sid"
  "mtext (rq_message (scammer_says sid txt)) = txt"
  "rq_conversationHistory (scammer_says sid txt) = []"
  by (simp_all add: scammer_says_def)

lemma kyc_after_turn:
  "turn_count (session_after_turn e (scammer_says sid kyc_message) init_world) = 1"
  "\<not> finalized (session_after_turn e (scammer_says sid kyc_message) init_world)"
  "phishingLinks (extracted_intelligence
      (session_after_turn e (scammer_says sid kyc_message) init_world)) = [''http://bit.ly'']"
  "upiIds (extracted_intelligence
      (session_after_turn e (scammer_says sid kyc_message) init_world)) = []"
  by (simp_all add: session_after_turn_facts init_world_facts kyc_extract
      merge_intelligence_def no_intelligence_def union_list_def)

lemma kyc_should_end:
  "should_end_conversation max_turns (session_after_turn e (scammer_says sid kyc_message) init_world)"
  by (simp add: should_end_iff cond_a_def kyc_after_turn)

lemma kyc_first_turn:
  "finalized_in (snd (process_message max_turns e (scammer_says sid kyc_message) init_world)) sid"
  "turn_count_of (snd (process_message max_turns e (scammer_says sid kyc_message) init_world)) sid = 1"
  "intel_of (snd (process_message max_turns e (scammer_says sid kyc_message) init_world)) sid
     = merge_intelligence no_intelligence (extract_intel kyc_message)"
  by (simp_all add: step_finalized step_turn_count step_intel kyc_not_neutral kyc_should_end
      init_world_facts)

section \<open>The session store: updating an unknown session\<close>

text \<open>
  C10. Updating a session identifier that the store does not hold leaves the store as it
  was: no session is created, none is changed, none is removed.
\<close>

theorem update_session_absent:
  assumes "sid \<notin> dom store"
  shows "update_session sid session_data store = store"
  using assms by (simp add: update_session_def)

theorem update_session_absent_witness:
  "''s2'' \<notin> dom [''s1'' \<mapsto> new_session env0 ''s1'' []]
   \<and> update_session ''s2'' (new_session env0 ''s2'' []) [''s1'' \<mapsto> new_session env0 ''s1'' []]
       = [''s1'' \<mapsto> new_session env0 ''s1'' []]"
proof -
  have absent: "''s2'' \<notin> dom [''s1'' \<mapsto> new_session env0 ''s1'' []]"
    by simp
  from update_session_absent [OF absent] absent show ?thesis
    by blast
qed

section \<open>Finalization happens once\<close>

text \<open>
  C1. Whatever calls are processed, a session that is finalized stays finalized (so the
  flag goes from false to true at most once), and from the start of the service the reporter
  is called at most once for each session identifier, however often the termination
  predicate is evaluated again afterwards.
\<close>

theorem finalized_once:
  "(finalized_in w sid \<longrightarrow> finalized_in (run max_turns calls w) sid)
   \<and> length (reports_for (run max_turns calls init_world) sid) \<le> 1"
  using finalized_run [of w sid max_turns calls]
    reported_invariant_run [of init_world sid max_turns calls]
  by (simp add: init_world_facts)

theorem finalized_once_witness:
  "finalized_in (snd (process_message MAX_CONVERSATION_TURNS env0
        (scammer_says ''s1'' kyc_message) init_world)) ''s1''
   \<and> finalized_in (run MAX_CONVERSATION_TURNS
        [(env0, scammer_says ''s1'' kyc_message), (env0, scammer_says ''s1'' hello_message)]
        (snd (process_message MAX_CONVERSATION_TURNS env0
           (scammer_says ''s1'' kyc_message) init_world))) ''s1''
   \<and> length (reports_for (run MAX_CONVERSATION_TURNS
        [(env0, scammer_says ''s1'' kyc_message), (env0, scammer_says ''s1'' hello_message)]
        init_world) ''s1'') \<le> 1"
  using finalized_once [of "snd (process_message MAX_CONVERSATION_TURNS env0
        (scammer_says ''s1'' kyc_message) init_world)" "''s1''" MAX_CONVERSATION_TURNS
        "[(env0, scammer_says ''s1'' kyc_message), (env0, scammer_says ''s1'' hello_message)]"]
    kyc_first_turn(1) [of MAX_CONVERSATION_TURNS env0 "''s1''"]
  by blast

section \<open>The termination predicate\<close>

text \<open>
  C3. The termination predicate returns at the first of the conditions a to d that holds,
  and holds exactly when one of them does. In a call that passes the first-turn gate, the
  stored session has one more turn; it is finalized exactly when it was already or one of
  a to d holds for it after the increment; and the reporter receives a payload exactly when
  one of a to d holds and the session was not finalized before.
\<close>

theorem termination_predicate:
  "end_condition max_turns s = first_condition max_turns s
   \<and> (should_end_conversation max_turns s
        \<longleftrightarrow> cond_a s \<or> cond_b s \<or> cond_c s \<or> cond_d max_turns s)
   \<and> (\<not> answered_neutrally e request w \<longrightarrow>
        (\<exists>s'. sessions (snd (process_message max_turns e request w)) (rq_sessionId request) = Some s'
           \<and> turn_count s' = turn_count_of w (rq_sessionId request) + 1
           \<and> (finalized s' \<longleftrightarrow> finalized_in w (rq_sessionId request)
                 \<or> cond_a s' \<or> cond_b s' \<or> cond_c s' \<or> cond_d max_turns s')
           \<and> reports (snd (process_message max_turns e request w)) =
               reports w @
               (if \<not> finalized_in w (rq_sessionId request)
                   \<and> (cond_a s' \<or> cond_b s' \<or> cond_c s' \<or> cond_d max_turns s')
                then [final_payload (rq_sessionId request) s'] else [])))"
proof (intro conjI impI)
  show "end_condition max_turns s = first_condition max_turns s"
    by (rule end_condition_first)
  show "should_end_conversation max_turns s
        \<longleftrightarrow> cond_a s \<or> cond_b s \<or> cond_c s \<or> cond_d max_turns s"
    by (rule should_end_iff)
next
  assume engaged: "\<not> answered_neutrally e request w"
  let ?sid = "rq_sessionId request"
  let ?t = "session_after_turn e request w"
  let ?f = "?t\<lparr> finalized := True, finalized_at := Some (now_finalized e) \<rparr>"
  let ?w' = "snd (process_message max_turns e request w)"
  show "\<exists>s'. sessions ?w' ?sid = Some s'
           \<and> turn_count s' = turn_count_of w ?sid + 1
           \<and> (finalized s' \<longleftrightarrow> finalized_in w ?sid
                 \<or> cond_a s' \<or> cond_b s' \<or> cond_c s' \<or> cond_d max_turns s')
           \<and> reports ?w' =
               reports w @
               (if \<not> finalized_in w ?sid
                   \<and> (cond_a s' \<or> cond_b s' \<or> cond_c s' \<or> cond_d max_turns s')
                then [final_payload ?sid s'] else [])"
  proof (cases "should_end_conversation max_turns ?t \<and> \<not> finalized_in w ?sid")
    case True
    with engaged have "sessions ?w' ?sid = Some ?f"
      by (simp add: step_sessions)
    moreover have "turn_count ?f = turn_count_of w ?sid + 1"
      by (simp add: session_after_turn_facts)
    moreover from True have "cond_a ?f \<or> cond_b ?f \<or> cond_c ?f \<or> cond_d max_turns ?f"
      by (simp add: should_end_iff cond_finalized_irrelevant)
    moreover from True engaged have "reports ?w' = reports w @ [final_payload ?sid ?f]"
      by (simp add: step_reports)
    ultimately show ?thesis
      using True by (intro exI [of _ ?f]) simp
  next
    case False
    with engaged have "sessions ?w' ?sid = Some ?t"
      by (auto simp add: step_sessions)
    moreover have "turn_count ?t = turn_count_of w ?sid + 1"
      by (simp add: session_after_turn_facts)
    moreover have "finalized ?t = finalized_in w ?sid"
      by (simp add: session_after_turn_facts)
    moreover from False engaged have "reports ?w' = reports w"
      by (auto simp add: step_reports)
    ultimately show ?thesis
      using False by (intro exI [of _ ?t]) (auto simp add: should_end_iff)
  qed
qed

theorem termination_predicate_witness:
  "\<not> answered_neutrally env0 (scammer_says ''s1'' kyc_message) init_world
   \<and> (\<exists>s'. sessions (snd (process_message MAX_CONVERSATION_TURNS env0
               (scammer_says ''s1'' kyc_message) init_world)) ''s1'' = Some s'
         \<and> turn_count s' = 1 \<and> cond_a s' \<and> finalized s'
         \<and> reports (snd (process_message MAX_CONVERSATION_TURNS env0
               (scammer_says ''s1'' kyc_message) init_world)) = [final_payload ''s1'' s'])"
proof -
  let ?w' = "snd (process_message MAX_CONVERSATION_TURNS env0
               (scammer_says ''s1'' kyc_message) init_world)"
  have engaged: "\<not> answered_neutrally env0 (scammer_says ''s1'' kyc_message) init_world"
    by (rule kyc_not_neutral)
  have "\<exists>s'. sessions ?w' ''s1'' = Some s' \<and> turn_count s' = 1
          \<and> (finalized s' \<longleftrightarrow> cond_a s' \<or> cond_b s' \<or> cond_c s'
                \<or> cond_d MAX_CONVERSATION_TURNS s')
          \<and> reports ?w' =
              (if cond_a s' \<or> cond_b s' \<or> cond_c s' \<or> cond_d MAX_CONVERSATION_TURNS s'
               then [final_payload ''s1'' s'] else [])"
    using termination_predicate [of MAX_CONVERSATION_TURNS "new_session env0 ''s1'' []" env0
        "scammer_says ''s1'' kyc_message" init_world] engaged
    by (auto simp add: init_world_facts split: if_splits)
  then obtain s' where s': "sessions ?w' ''s1'' = Some s'" and turn: "turn_count s' = 1"
    and fin: "finalized s' \<longleftrightarrow> cond_a s' \<or> cond_b s' \<or> cond_c s'
                \<or> cond_d MAX_CONVERSATION_TURNS s'"
    and rep: "reports ?w' =
              (if cond_a s' \<or> cond_b s' \<or> cond_c s' \<or> cond_d MAX_CONVERSATION_TURNS s'
               then [final_payload ''s1'' s'] else [])"
    by blast
  from s' kyc_first_turn(3) [of MAX_CONVERSATION_TURNS env0 "''s1''"]
  have "phishingLinks (extracted_intelligence s') = [''http://bit.ly'']"
    by (simp add: intel_of_def kyc_extract merge_intelligence_def no_intelligence_def
        union_list_def)
  with turn have "cond_a s'"
    by (simp add: cond_a_def)
  with engaged s' turn fin rep show ?thesis
    by simp
qed

section \<open>The decision of the classifier\<close>

text \<open>
  C6 (amended). \<open>detect\<close> answers scam exactly when the computed confidence exceeds 0.2, or
  the history is not empty and the confidence exceeds 0.1. It always returns the computed
  confidence unclamped. The label it returns is the computed category when the answer is
  scam and the fixed label \<^verbatim>\<open>NONE\<close> otherwise; the computed category is the generic-fraud
  label when no category pattern matched.
\<close>

theorem detect_decision:
  "detect m h =
     (let c = r_confidence (rule_based_detection m);
          is_scam = (c > 2 / 10 \<or> (h \<noteq> [] \<and> c > 1 / 10))
      in (is_scam, c, if is_scam then r_scam_type (rule_based_detection m) else ''NONE''))
   \<and> (scores_loop SCAM_PATTERNS m = []
        \<longrightarrow> r_scam_type (rule_based_detection m) = ''GENERIC_FRAUD'')"
  by (auto simp add: detect_def rule_based_detection_def primary_type_def Let_def split_def)

theorem detect_decision_witness:
  "scores_loop SCAM_PATTERNS hello_message = []
   \<and> r_scam_type (rule_based_detection hello_message) = ''GENERIC_FRAUD''
   \<and> detect hello_message [] = (False, 0, ''NONE'')"
  using detect_decision [of hello_message "[]"] hello_scores hello_confidence
  by (simp add: Let_def)

text \<open>
  C6 as stated fails: for the message \<^verbatim>\<open>hello\<close> and an empty history the computed category
  is the generic-fraud label, and the label returned is \<^verbatim>\<open>NONE\<close>.
\<close>

theorem detect_label_counterexample:
  "snd (snd (detect hello_message [])) \<noteq> r_scam_type (rule_based_detection hello_message)"
  by (simp add: hello_detect hello_rule_based)

section \<open>The turn count\<close>

text \<open>
  C7 (amended). A call that passes the first-turn gate adds exactly one to the turn count
  of its session and leaves every other session's count alone. A call that is answered with
  the neutral closing reply (turn count 0, classified as no scam with a confidence below
  0.1) leaves the turn count at 0.
\<close>

theorem turn_count_step:
  "turn_count_of (snd (process_message max_turns e request w)) sid =
     (if sid = rq_sessionId request \<and> \<not> answered_neutrally e request w
      then turn_count_of w sid + 1 else turn_count_of w sid)
   \<and> (answered_neutrally e request w \<longleftrightarrow>
        turn_count_of w (rq_sessionId request) = 0
        \<and> \<not> fst (detect (mtext (rq_message request)) (rq_conversationHistory request))
        \<and> fst (snd (detect (mtext (rq_message request)) (rq_conversationHistory request)))
            < 1 / 10)
   \<and> (answered_neutrally e request w \<longrightarrow>
        reply (fst (process_message max_turns e request w)) = neutral_reply)"
  using answered_neutrally_iff [of e request w]
  by (simp add: step_turn_count process_message_neutral)

theorem turn_count_step_witness:
  "\<not> answered_neutrally env0 (scammer_says ''s1'' kyc_message) init_world
   \<and> turn_count_of (snd (process_message MAX_CONVERSATION_TURNS env0
        (scammer_says ''s1'' kyc_message) init_world)) ''s1'' = 1
   \<and> answered_neutrally env0 (scammer_says ''s1'' hello_message) init_world
   \<and> reply (fst (process_message MAX_CONVERSATION_TURNS env0
        (scammer_says ''s1'' hello_message) init_world)) = neutral_reply
   \<and> turn_count_of (snd (process_message MAX_CONVERSATION_TURNS env0
        (scammer_says ''s1'' hello_message) init_world)) ''s1'' = 0"
  using turn_count_step [of MAX_CONVERSATION_TURNS env0 "scammer_says ''s1'' kyc_message"
      init_world "''s1''"]
    turn_count_step [of MAX_CONVERSATION_TURNS env0 "scammer_says ''s1'' hello_message"
      init_world "''s1''"]
    kyc_not_neutral [of env0 "''s1''" init_world] hello_neutral [of env0 "''s1''"]
  by (simp add: init_world_facts)

text \<open>
  C7 as stated fails: the message \<^verbatim>\<open>hello\<close> on a new session is processed and answered with
  the neutral closing reply, and the session's turn count is 0 before and after.
\<close>

theorem turn_count_counterexample:
  "reply (fst (process_message MAX_CONVERSATION_TURNS env0
        (scammer_says ''s1'' hello_message) init_world)) = neutral_reply
   \<and> turn_count_of init_world ''s1'' = 0
   \<and> turn_count_of (snd (process_message MAX_CONVERSATION_TURNS env0
        (scammer_says ''s1'' hello_message) init_world)) ''s1'' = 0"
proof (intro conjI)
  show "reply (fst (process_message MAX_CONVERSATION_TURNS env0
        (scammer_says ''s1'' hello_message) init_world)) = neutral_reply"
    by (simp add: process_message_neutral hello_neutral)
  show "turn_count_of init_world ''s1'' = 0"
    by (simp add: init_world_facts)
  show "turn_count_of (snd (process_message MAX_CONVERSATION_TURNS env0
        (scammer_says ''s1'' hello_message) init_world)) ''s1'' = 0"
    by (simp add: step_turn_count hello_neutral init_world_facts)
qed

section \<open>One extraction result has no two spellings of one entity\<close>

text \<open>\<^verbatim>\<open>_deduplicate\<close> keeps the first of the items that are equal once lowered, in the order
  of the input. The keywords are taken from a list of lowered words, so that they differ
  from one another also when case is ignored.\<close>

lemma deduplicate_loop_subset:
  "set (deduplicate_loop items seen result) \<subseteq> set result \<union> set items"
proof (induction items arbitrary: seen result)
  case Nil
  show ?case by simp
next
  case (Cons item items)
  from Cons [of "insert (lower item) seen" "result @ [item]"] Cons [of seen result]
  show ?case by auto
qed

lemma deduplicate_loop_lowered:
  "lower ` set result \<subseteq> seen \<Longrightarrow>
   lower ` set (deduplicate_loop items seen result)
     = lower ` set result \<union> (lower ` set items - seen)"
proof (induction items arbitrary: seen result)
  case Nil
  show ?case by simp
next
  case (Cons item items)
  show ?case
  proof (cases "lower item \<in> seen")
    case True
    with Cons.IH [of result seen] Cons.prems show ?thesis by auto
  next
    case False
    have "lower ` set (result @ [item]) \<subseteq> insert (lower item) seen"
      using Cons.prems by auto
    from Cons.IH [OF this] False show ?thesis by auto
  qed
qed

lemma deduplicate_loop_distinct:
  "distinct (map lower result) \<Longrightarrow> lower ` set result \<subseteq> seen \<Longrightarrow>
   distinct (map lower (deduplicate_loop items seen result))"
proof (induction items arbitrary: seen result)
  case Nil
  then show ?case by simp
next
  case (Cons item items)
  show ?case
  proof (cases "lower item \<in> seen")
    case True
    with Cons.IH [of result seen] Cons.prems show ?thesis by simp
  next
    case False
    have "distinct (map lower (result @ [item]))"
      using Cons.prems False by auto
    moreover have "lower ` set (result @ [item]) \<subseteq> insert (lower item) seen"
      using Cons.prems by auto
    ultimately show ?thesis
      using Cons.IH [of "result @ [item]" "insert (lower item) seen"] False by simp
  qed
qed

lemma deduplicate_distinct: "distinct_ignoring_case (deduplicate items)"
  by (simp add: deduplicate_def distinct_ignoring_case_def deduplicate_loop_distinct)

lemma deduplicate_lowered: "lower ` set (deduplicate items) = lower ` set items"
  by (simp add: deduplicate_def deduplicate_loop_lowered)

lemma deduplicate_subset: "set (deduplicate items) \<subseteq> set items"
  using deduplicate_loop_subset [of items "{}" "[]"] by (simp add: deduplicate_def)

lemma keywords_lowered:
  "\<forall>k \<in> set (concat (map snd KEYWORD_CATEGORIES)). lower k = k"
  by (simp only: KEYWORD_CATEGORIES_def snd_conv list.set ball_simps ev cong: ev_cong)

lemma keywords_loop_distinct:
  "distinct found \<Longrightarrow> distinct (keywords_loop t ks found)"
  by (induction ks arbitrary: found) auto

lemma keywords_loop_subset:
  "set (keywords_loop t ks found) \<subseteq> set found \<union> set ks"
proof (induction ks arbitrary: found)
  case Nil
  show ?case by simp
next
  case (Cons k ks)
  from Cons [of "found @ [k]"] Cons [of found] show ?case by auto
qed

lemma extract_keywords_distinct: "distinct_ignoring_case (extract_keywords text)"
proof -
  let ?ks = "extract_keywords text"
  have sub: "set ?ks \<subseteq> set (concat (map snd KEYWORD_CATEGORIES))"
    using keywords_loop_subset [of "lower text" "concat (map snd KEYWORD_CATEGORIES)" "[]"]
    by (simp add: extract_keywords_def)
  have "map lower ?ks = map (\<lambda>k. k) ?ks"
    by (rule map_cong [OF refl]) (use sub keywords_lowered in blast)
  moreover have "distinct ?ks"
    by (simp add: extract_keywords_def keywords_loop_distinct)
  ultimately show ?thesis
    by (simp add: distinct_ignoring_case_def)
qed

lemma extract_fields_distinct:
  assumes "f \<in> set intelligence_fields"
  shows "distinct_ignoring_case (f (extract_intel text))"
  using assms
  by (auto simp add: intelligence_fields_def extract_intel_def Let_def deduplicate_distinct
      extract_keywords_distinct)

lemma deduplicate_loop_filter:
  "deduplicate_loop items seen result =
     result @ deduplicate_loop (filter (\<lambda>x. lower x \<notin> seen) items) {} []"
proof (induction "length items" arbitrary: items seen result rule: less_induct)
  case less
  show ?case
  proof (cases items)
    case Nil
    then show ?thesis by simp
  next
    case (Cons item rest)
    show ?thesis
    proof (cases "lower item \<in> seen")
      case True
      with Cons less [of rest seen result] show ?thesis by simp
    next
      case False
      have "length (filter (\<lambda>x. lower x \<notin> seen) rest) < length items"
        using Cons by (simp add: le_imp_less_Suc)
      from less [OF this, of "{lower item}" "[item]"]
      have "deduplicate_loop (filter (\<lambda>x. lower x \<notin> seen) rest) {lower item} [item] =
          [item] @ deduplicate_loop (filter (\<lambda>x. lower x \<notin> insert (lower item) seen) rest) {} []"
        by (simp add: conj_commute)
      with Cons False less [of rest "insert (lower item) seen" "result @ [item]"]
      show ?thesis by simp
    qed
  qed
qed

lemma deduplicate_Cons:
  "deduplicate (item # items) = item # deduplicate (filter (\<lambda>x. lower x \<noteq> lower item) items)"
  using deduplicate_loop_filter [of items "{lower item}" "[item]"]
  by (simp add: deduplicate_def)

section \<open>The accumulated intelligence\<close>

text \<open>
  C2 (amended). From the start of the service, each of the five accumulated collections of
  a session holds exactly the strings of the extraction results contributed to it so far,
  each string once; two strings count as the same only when they are equal, case included.
  No string is dropped by later calls. Case is ignored within one extraction result only:
  none of its five collections has two entries that are equal once lowered, because
  \<^verbatim>\<open>_deduplicate\<close> keeps an item and drops every later item that is equal to it once lowered.
\<close>

theorem accumulated_intelligence:
  "(\<forall>f \<in> set intelligence_fields.
      set (f (intel_of (run max_turns calls init_world) sid))
        = (\<Union>x \<in> set (contributions max_turns calls init_world sid). set (f x))
      \<and> distinct (f (intel_of (run max_turns calls init_world) sid))
      \<and> set (f (intel_of w sid)) \<subseteq> set (f (intel_of (run max_turns calls w) sid))
      \<and> distinct_ignoring_case (f (extract_intel text)))
   \<and> deduplicate [] = []
   \<and> deduplicate (item # items)
       = item # deduplicate (filter (\<lambda>x. lower x \<noteq> lower item) items)
   \<and> distinct_ignoring_case (deduplicate items)
   \<and> lower ` set (deduplicate items) = lower ` set items"
proof (intro conjI)
  show "\<forall>f \<in> set intelligence_fields.
      set (f (intel_of (run max_turns calls init_world) sid))
        = (\<Union>x \<in> set (contributions max_turns calls init_world sid). set (f x))
      \<and> distinct (f (intel_of (run max_turns calls init_world) sid))
      \<and> set (f (intel_of w sid)) \<subseteq> set (f (intel_of (run max_turns calls w) sid))
      \<and> distinct_ignoring_case (f (extract_intel text))"
  proof (intro ballI conjI)
    fix f
    assume f: "f \<in> set intelligence_fields"
    show "set (f (intel_of (run max_turns calls init_world) sid))
         = (\<Union>x \<in> set (contributions max_turns calls init_world sid). set (f x))"
      by (simp add: run_intel [OF f] init_world_facts no_intelligence_fields [OF f])
    show "distinct (f (intel_of (run max_turns calls init_world) sid))"
      by (rule run_distinct [OF f]) (simp add: init_world_facts no_intelligence_fields [OF f])
    show "set (f (intel_of w sid)) \<subseteq> set (f (intel_of (run max_turns calls w) sid))"
      by (simp add: run_intel [OF f])
    show "distinct_ignoring_case (f (extract_intel text))"
      by (rule extract_fields_distinct [OF f])
  qed
  show "deduplicate [] = []"
    by (simp add: deduplicate_def)
  show "deduplicate (item # items)
       = item # deduplicate (filter (\<lambda>x. lower x \<noteq> lower item) items)"
    by (rule deduplicate_Cons)
  show "distinct_ignoring_case (deduplicate items)"
    by (rule deduplicate_distinct)
  show "lower ` set (deduplicate items) = lower ` set items"
    by (rule deduplicate_lowered)
qed

theorem accumulated_intelligence_witness:
  "phishingLinks \<in> set intelligence_fields
   \<and> set (phishingLinks (intel_of (run MAX_CONVERSATION_TURNS
        [(env0, scammer_says ''s1'' kyc_message)] init_world) ''s1'')) = {''http://bit.ly''}
   \<and> distinct (phishingLinks (intel_of (run MAX_CONVERSATION_TURNS
        [(env0, scammer_says ''s1'' kyc_message)] init_world) ''s1''))
   \<and> set (phishingLinks (intel_of init_world ''s1''))
       \<subseteq> set (phishingLinks (intel_of (run MAX_CONVERSATION_TURNS
             [(env0, scammer_says ''s1'' kyc_message)] init_world) ''s1''))
   \<and> phishingLinks (extract_intel repeated_link_message) = [''http://EVIL.com'']
   \<and> distinct_ignoring_case (phishingLinks (extract_intel repeated_link_message))
   \<and> deduplicate [''http://EVIL.com'', ''http://evil.com''] = [''http://EVIL.com'']"
proof -
  have field: "phishingLinks \<in> set intelligence_fields"
    by (simp add: intelligence_fields_def)
  note at_kyc = accumulated_intelligence [of MAX_CONVERSATION_TURNS
      "[(env0, scammer_says ''s1'' kyc_message)]" "''s1''" init_world repeated_link_message
      "''http://EVIL.com''" "[''http://evil.com'']"]
  have "contributions MAX_CONVERSATION_TURNS [(env0, scammer_says ''s1'' kyc_message)]
          init_world ''s1'' = [extract_intel kyc_message]"
    by (simp add: kyc_not_neutral)
  with at_kyc [THEN conjunct1, THEN bspec, OF field] field
  have accumulated: "set (phishingLinks (intel_of (run MAX_CONVERSATION_TURNS
        [(env0, scammer_says ''s1'' kyc_message)] init_world) ''s1'')) = {''http://bit.ly''}
   \<and> distinct (phishingLinks (intel_of (run MAX_CONVERSATION_TURNS
        [(env0, scammer_says ''s1'' kyc_message)] init_world) ''s1''))
   \<and> set (phishingLinks (intel_of init_world ''s1''))
       \<subseteq> set (phishingLinks (intel_of (run MAX_CONVERSATION_TURNS
             [(env0, scammer_says ''s1'' kyc_message)] init_world) ''s1''))
   \<and> distinct_ignoring_case (phishingLinks (extract_intel repeated_link_message))"
    by (simp add: kyc_extract kyc_not_neutral init_world_facts no_intelligence_def)
  from at_kyc [THEN conjunct2, THEN conjunct1]
    at_kyc [THEN conjunct2, THEN conjunct2, THEN conjunct1]
  have "deduplicate [''http://EVIL.com'', ''http://evil.com''] = [''http://EVIL.com'']"
    by (simp add: lower_equal)
  with field accumulated repeated_link_extract show ?thesis
    by (elim conjE, intro conjI) assumption+
qed

text \<open>
  C2 as stated fails: two calls for one session whose links differ only in case leave both
  links in the accumulated collection, which is therefore not deduplicated
  case-insensitively.
\<close>

theorem case_insensitive_counterexample:
  "set (phishingLinks (intel_of (run MAX_CONVERSATION_TURNS
        [(env0, scammer_says ''s1'' upper_link_message),
         (env0, scammer_says ''s1'' lower_link_message)] init_world) ''s1''))
     = {''http://EVIL.com'', ''http://evil.com''}
   \<and> \<not> distinct_ignoring_case (phishingLinks (intel_of (run MAX_CONVERSATION_TURNS
        [(env0, scammer_says ''s1'' upper_link_message),
         (env0, scammer_says ''s1'' lower_link_message)] init_world) ''s1''))"
proof -
  let ?w1 = "snd (process_message MAX_CONVERSATION_TURNS env0
               (scammer_says ''s1'' upper_link_message) init_world)"
  have "turn_count_of ?w1 ''s1'' = 1"
    by (simp add: step_turn_count upper_link_not_neutral init_world_facts)
  then have second: "\<not> answered_neutrally env0 (scammer_says ''s1'' lower_link_message) ?w1"
    by (simp add: answered_neutrally_iff)
  have "phishingLinks (intel_of (run MAX_CONVERSATION_TURNS
        [(env0, scammer_says ''s1'' upper_link_message),
         (env0, scammer_says ''s1'' lower_link_message)] init_world) ''s1'')
        = [''http://EVIL.com'', ''http://evil.com'']"
    by (simp add: step_intel second upper_link_not_neutral init_world_facts link_extracts
        merge_intelligence_def no_intelligence_def union_list_def)
  then show ?thesis
    by (simp add: distinct_ignoring_case_def lower_equal)
qed

section \<open>Appended text keeps every match of the detector\<close>

lemma extend_sel [simp]:
  "prev (extend t st) = prev st" "rest (extend t st) = rest st @ t" "grp (extend t st) = grp st"
  by (simp_all add: extend_def)

lemma rep_ms_keeps_start: "lo = 0 \<Longrightarrow> st \<in> set (rep_ms f lo k st)"
  by (subst rep_ms.simps) simp

lemma rep_ms_extend:
  assumes f: "\<And>st st'. st' \<in> set (f st) \<Longrightarrow> extend t st' \<in> set (f (extend t st))"
  shows "k \<le> k' \<Longrightarrow> st' \<in> set (rep_ms f lo k st)
         \<Longrightarrow> extend t st' \<in> set (rep_ms f lo k' (extend t st))"
proof (induction k arbitrary: lo k' st)
  case 0
  then have "lo = 0" "st' = st"
    by (simp_all add: rep_ms.simps [of f lo 0] split: if_splits)
  then show ?case
    by (simp add: rep_ms_keeps_start)
next
  case (Suc k)
  from Suc.prems(1) obtain n where k': "k' = Suc n" and kn: "k \<le> n"
    by (cases k') simp_all
  from Suc.prems(2)
  consider (more) x where "x \<in> set (f st)" "length (rest x) < length (rest st)"
      "st' \<in> set (rep_ms f (lo - 1) k x)"
    | (stop) "lo = 0" "st' = st"
    by (subst (asm) rep_ms.simps) (auto split: if_splits)
  then show ?case
  proof cases
    case more
    from more(1) have "extend t x \<in> set (f (extend t st))"
      by (rule f)
    moreover from more(2) have "length (rest (extend t x)) < length (rest (extend t st))"
      by simp
    moreover from Suc.IH [OF kn more(3)]
    have "extend t st' \<in> set (rep_ms f (lo - 1) n (extend t x))" .
    ultimately show ?thesis
      unfolding k' by (subst rep_ms.simps) auto
  next
    case stop
    then show ?thesis
      by (simp add: rep_ms_keeps_start)
  qed
qed

lemma ms_extend:
  "no_boundary r \<Longrightarrow> st' \<in> set (ms ic r st) \<Longrightarrow> extend t st' \<in> set (ms ic r (extend t st))"
proof (induction r arbitrary: st st')
  case Eps
  then show ?case by simp
next
  case (Chr x)
  then show ?case by (auto simp add: extend_def split: list.splits if_splits)
next
  case (Cls items)
  then show ?case by (auto simp add: extend_def split: list.splits if_splits)
next
  case (Seq a b)
  then show ?case by fastforce
next
  case (Alt a b)
  then show ?case by auto
next
  case (Rep lo hi r)
  have "(case hi of None \<Rightarrow> length (rest st) | Some h \<Rightarrow> h)
        \<le> (case hi of None \<Rightarrow> length (rest (extend t st)) | Some h \<Rightarrow> h)"
    by (simp split: option.splits)
  with Rep show ?case
    by (auto intro: rep_ms_extend)
next
  case (Grp r)
  from Grp.prems obtain x where x: "x \<in> set (ms ic r st)"
    and st': "st' = MState (prev x) (rest x)
                 (Some (take (length (rest st) - length (rest x)) (rest st)))"
    by auto
  from Grp.IH [OF _ x] Grp.prems(1) have "extend t x \<in> set (ms ic r (extend t st))"
    by simp
  then have "MState (prev (extend t x)) (rest (extend t x))
               (Some (take (length (rest (extend t st)) - length (rest (extend t x)))
                  (rest (extend t st))))
             \<in> set (ms ic (Grp r) (extend t st))"
    by (simp del: extend_sel)
  then show ?case
    by (simp add: st' extend_def)
next
  case WordB
  then show ?case by simp
qed

lemma match_then_search: "ms ic r (MState p s None) \<noteq> [] \<Longrightarrow> search_from ic r p s"
  by (cases s) simp_all

lemma ms_nonempty_extend:
  assumes "no_boundary r" "ms ic r (MState p s None) \<noteq> []"
  shows "ms ic r (MState p (s @ t) None) \<noteq> []"
proof -
  from assms(2) obtain st' where "st' \<in> set (ms ic r (MState p s None))"
    by (cases "ms ic r (MState p s None)") auto
  from ms_extend [OF assms(1) this, of t] show ?thesis
    by (auto simp add: extend_def)
qed

lemma search_from_append:
  "no_boundary r \<Longrightarrow> search_from ic r p s \<Longrightarrow> search_from ic r p (s @ t)"
proof (induction s arbitrary: p)
  case Nil
  then show ?case
    using ms_nonempty_extend [of r ic p "[]" t] by (simp add: match_then_search)
next
  case (Cons c cs)
  then show ?case
    using ms_nonempty_extend [of r ic p "c # cs" t] by auto
qed

lemma search_append: "no_boundary r \<Longrightarrow> search ic r s \<Longrightarrow> search ic r (s @ t)"
  by (simp add: search_def search_from_append)


lemma detector_patterns_no_boundary:
  "(c, ps) \<in> set SCAM_PATTERNS \<Longrightarrow> r \<in> set ps \<Longrightarrow> no_boundary r"
  by (auto simp add: SCAM_PATTERNS_def UPI_FRAUD_patterns_def KYC_FRAUD_patterns_def
      ELECTRICITY_SCAM_patterns_def COURIER_SCAM_patterns_def JOB_SCAM_patterns_def
      LOTTERY_PRIZE_patterns_def str_def ws_def words_def opt_def plus_def star_def rupee_def)

lemma detector_patterns_nonempty: "(c, ps) \<in> set SCAM_PATTERNS \<Longrightarrow> ps \<noteq> []"
  by (auto simp add: SCAM_PATTERNS_def UPI_FRAUD_patterns_def KYC_FRAUD_patterns_def
      ELECTRICITY_SCAM_patterns_def COURIER_SCAM_patterns_def JOB_SCAM_patterns_def
      LOTTERY_PRIZE_patterns_def)

lemma filter_length_mono:
  "(\<And>x. x \<in> set xs \<Longrightarrow> P x \<Longrightarrow> Q x) \<Longrightarrow> length (filter P xs) \<le> length (filter Q xs)"
  by (induction xs) auto

lemma count_matches_append:
  assumes "\<And>r. r \<in> set ps \<Longrightarrow> no_boundary r"
  shows "count_matches ps m \<le> count_matches ps (m @ t)"
  unfolding count_matches_def
  by (rule filter_length_mono) (simp add: assms search_append)

lemma max_by_value_member: "max_by_value kv kvs \<in> set (kv # kvs)"
  by (induction kvs arbitrary: kv) auto

lemma max_by_value_greatest: "x \<in> set (kv # kvs) \<Longrightarrow> snd x \<le> snd (max_by_value kv kvs)"
proof (induction kvs arbitrary: kv x)
  case Nil
  then show ?case by simp
next
  case (Cons y kvs)
  let ?best = "if snd y > snd kv then y else kv"
  have best: "snd ?best \<le> snd (max_by_value ?best kvs)"
    by (rule Cons.IH) simp
  from Cons.prems consider "x = kv" | "x = y" | "x \<in> set kvs" by auto
  then show ?case
  proof cases
    case 1
    with best show ?thesis by (auto split: if_splits)
  next
    case 2
    with best show ?thesis by (auto split: if_splits)
  next
    case 3
    then have "snd x \<le> snd (max_by_value ?best kvs)"
      by (intro Cons.IH) simp
    then show ?thesis by simp
  qed
qed

lemma scores_loop_iff:
  "(c, v) \<in> set (scores_loop cats m) \<longleftrightarrow>
     (\<exists>ps. (c, ps) \<in> set cats \<and> count_matches ps m > 0 \<and> v = category_score ps m)"
  by (induction cats m rule: scores_loop.induct)
     (auto simp add: Let_def category_score_def)

lemma category_score_positive:
  "ps \<noteq> [] \<Longrightarrow> count_matches ps m > 0 \<Longrightarrow> category_score ps m > 0"
  by (simp add: category_score_def)

lemma category_score_mono:
  "count_matches ps m \<le> count_matches ps m' \<Longrightarrow> category_score ps m \<le> category_score ps m'"
  by (simp add: category_score_def divide_right_mono)

lemma category_confidence_cases:
  "category_confidence m = 0
   \<or> (\<exists>c ps. (c, ps) \<in> set SCAM_PATTERNS \<and> count_matches ps m > 0
        \<and> category_confidence m = max (6 / 10) (category_score ps m * 3))"
proof (cases "scores_loop SCAM_PATTERNS m")
  case Nil
  then show ?thesis
    by (simp add: category_confidence_def primary_type_def)
next
  case (Cons kv kvs)
  obtain c v where best: "max_by_value kv kvs = (c, v)"
    by (cases "max_by_value kv kvs")
  with max_by_value_member [of kv kvs] Cons have "(c, v) \<in> set (scores_loop SCAM_PATTERNS m)"
    by simp
  then obtain ps where ps: "(c, ps) \<in> set SCAM_PATTERNS" "count_matches ps m > 0"
      "v = category_score ps m"
    by (auto simp add: scores_loop_iff)
  with category_score_positive [of ps m] detector_patterns_nonempty [of c ps] have "v > 0"
    by simp
  with Cons best have "category_confidence m = max (6 / 10) (v * 3)"
    by (simp add: category_confidence_def primary_type_def)
  with ps show ?thesis
    by blast
qed

lemma category_confidence_lower:
  assumes ps: "(c, ps) \<in> set SCAM_PATTERNS" and pos: "count_matches ps m > 0"
  shows "max (6 / 10) (category_score ps m * 3) \<le> category_confidence m"
proof -
  from ps pos have mem: "(c, category_score ps m) \<in> set (scores_loop SCAM_PATTERNS m)"
    by (auto simp add: scores_loop_iff)
  then obtain kv kvs where scores: "scores_loop SCAM_PATTERNS m = kv # kvs"
    by (cases "scores_loop SCAM_PATTERNS m") auto
  obtain c' v where best: "max_by_value kv kvs = (c', v)"
    by (cases "max_by_value kv kvs")
  from max_by_value_greatest [of "(c, category_score ps m)" kv kvs] mem scores best
  have le: "category_score ps m \<le> v"
    by simp
  from category_score_positive [OF detector_patterns_nonempty [OF ps] pos] le have "v > 0"
    by simp
  with scores best have "category_confidence m = max (6 / 10) (v * 3)"
    by (simp add: category_confidence_def primary_type_def)
  with le show ?thesis
    by simp
qed

lemma category_confidence_nonneg: "0 \<le> category_confidence m"
  using category_confidence_cases [of m] by auto

lemma category_confidence_mono:
  assumes "\<And>c ps. (c, ps) \<in> set SCAM_PATTERNS
             \<Longrightarrow> count_matches ps m \<le> count_matches ps m'"
  shows "category_confidence m \<le> category_confidence m'"
  using category_confidence_cases [of m]
proof
  assume "category_confidence m = 0"
  then show ?thesis
    by (simp add: category_confidence_nonneg)
next
  assume "\<exists>c ps. (c, ps) \<in> set SCAM_PATTERNS \<and> count_matches ps m > 0
        \<and> category_confidence m = max (6 / 10) (category_score ps m * 3)"
  then obtain c ps where ps: "(c, ps) \<in> set SCAM_PATTERNS" and pos: "count_matches ps m > 0"
    and cc: "category_confidence m = max (6 / 10) (category_score ps m * 3)"
    by blast
  from assms [OF ps] pos have pos': "count_matches ps m' > 0"
    by simp
  from category_score_mono [OF assms [OF ps]]
  have "max (6 / 10) (category_score ps m * 3) \<le> max (6 / 10) (category_score ps m' * 3)"
    by auto
  also note category_confidence_lower [OF ps pos']
  finally show ?thesis
    by (simp add: cc)
qed

text \<open>
  C9. The category confidence that the classifier computes never decreases when the
  number of matching patterns does not decrease in any category; appending text to a
  message never lowers the number of matching patterns, nor the score, of any category;
  so appending text never lowers the category confidence.
\<close>

theorem category_confidence_monotone:
  "((\<forall>(c, ps) \<in> set SCAM_PATTERNS. count_matches ps m \<le> count_matches ps m')
      \<longrightarrow> category_confidence m \<le> category_confidence m')
   \<and> (\<forall>(c, ps) \<in> set SCAM_PATTERNS.
         count_matches ps m \<le> count_matches ps (m @ t)
         \<and> category_score ps m \<le> category_score ps (m @ t))
   \<and> category_confidence m \<le> category_confidence (m @ t)"
proof (intro conjI impI)
  assume "\<forall>(c, ps) \<in> set SCAM_PATTERNS. count_matches ps m \<le> count_matches ps m'"
  then show "category_confidence m \<le> category_confidence m'"
    by (intro category_confidence_mono) auto
next
  show append: "\<forall>(c, ps) \<in> set SCAM_PATTERNS.
         count_matches ps m \<le> count_matches ps (m @ t)
         \<and> category_score ps m \<le> category_score ps (m @ t)"
    by (auto intro!: count_matches_append category_score_mono
        dest: detector_patterns_no_boundary)
  then show "category_confidence m \<le> category_confidence (m @ t)"
    by (intro category_confidence_mono) auto
qed

theorem category_confidence_monotone_witness:
  "count_matches UPI_FRAUD_patterns hello_message \<le> count_matches UPI_FRAUD_patterns kyc_message
   \<and> count_matches KYC_FRAUD_patterns hello_message \<le> count_matches KYC_FRAUD_patterns kyc_message
   \<and> count_matches ELECTRICITY_SCAM_patterns hello_message
       \<le> count_matches ELECTRICITY_SCAM_patterns kyc_message
   \<and> count_matches COURIER_SCAM_patterns hello_message
       \<le> count_matches COURIER_SCAM_patterns kyc_message
   \<and> count_matches JOB_SCAM_patterns hello_message \<le> count_matches JOB_SCAM_patterns kyc_message
   \<and> count_matches LOTTERY_PRIZE_patterns hello_message
       \<le> count_matches LOTTERY_PRIZE_patterns kyc_message
   \<and> category_confidence hello_message \<le> category_confidence kyc_message
   \<and> category_confidence hello_message \<le> category_confidence (hello_message @ kyc_message)"
  using category_confidence_monotone [of hello_message kyc_message kyc_message]
  by (simp add: SCAM_PATTERNS_def hello_counts kyc_counts)

section \<open>The end-to-end scenario\<close>

text \<open>
  C4, as the code runs it. The message is classified as a scam of category
  \<^verbatim>\<open>KYC_FRAUD\<close>, the turn count becomes 1, termination condition a fires and the reporter is
  called once with \<^verbatim>\<open>totalMessagesExchanged = 1\<close>. The accumulated link, however, is
  \<^verbatim>\<open>http://bit.ly\<close>: \<^verbatim>\<open>findall\<close> on a pattern with one group returns the group, here the
  shortener's domain, and not the whole match.
\<close>

theorem kyc_scenario:
  "detect kyc_message [] = (True, 1859 / 4200, ''KYC_FRAUD'')
   \<and> turn_count_of (snd (process_message MAX_CONVERSATION_TURNS env0
          (scammer_says ''s1'' kyc_message) init_world)) ''s1'' = 1
   \<and> phishingLinks (intel_of (snd (process_message MAX_CONVERSATION_TURNS env0
          (scammer_says ''s1'' kyc_message) init_world)) ''s1'') = [''http://bit.ly'']
   \<and> map_option (end_condition MAX_CONVERSATION_TURNS)
        (sessions (snd (process_message MAX_CONVERSATION_TURNS env0
          (scammer_says ''s1'' kyc_message) init_world)) ''s1'') = Some (Some CriticalIntelligence)
   \<and> map sessionId (reports (snd (process_message MAX_CONVERSATION_TURNS env0
          (scammer_says ''s1'' kyc_message) init_world))) = [''s1'']
   \<and> map totalMessagesExchanged (reports (snd (process_message MAX_CONVERSATION_TURNS env0
          (scammer_says ''s1'' kyc_message) init_world))) = [1]
   \<and> map (\<lambda>p. phishingLinks (extractedIntelligence p))
        (reports (snd (process_message MAX_CONVERSATION_TURNS env0
          (scammer_says ''s1'' kyc_message) init_world))) = [[''http://bit.ly'']]"
proof (intro conjI)
  show "detect kyc_message [] = (True, 1859 / 4200, ''KYC_FRAUD'')"
    by (rule kyc_detect)
  show "turn_count_of (snd (process_message MAX_CONVERSATION_TURNS env0
          (scammer_says ''s1'' kyc_message) init_world)) ''s1'' = 1"
    by (simp add: step_turn_count kyc_not_neutral init_world_facts)
  show "phishingLinks (intel_of (snd (process_message MAX_CONVERSATION_TURNS env0
          (scammer_says ''s1'' kyc_message) init_world)) ''s1'') = [''http://bit.ly'']"
    by (simp add: step_intel kyc_not_neutral init_world_facts kyc_extract
        merge_intelligence_def no_intelligence_def union_list_def)
  show "map_option (end_condition MAX_CONVERSATION_TURNS)
        (sessions (snd (process_message MAX_CONVERSATION_TURNS env0
          (scammer_says ''s1'' kyc_message) init_world)) ''s1'') = Some (Some CriticalIntelligence)"
    by (simp add: step_sessions kyc_not_neutral kyc_should_end init_world_facts
        end_condition_first first_condition_def cond_a_def kyc_after_turn)
  show "map sessionId (reports (snd (process_message MAX_CONVERSATION_TURNS env0
          (scammer_says ''s1'' kyc_message) init_world))) = [''s1'']"
    by (simp add: step_reports kyc_not_neutral kyc_should_end init_world_facts)
  show "map totalMessagesExchanged (reports (snd (process_message MAX_CONVERSATION_TURNS env0
          (scammer_says ''s1'' kyc_message) init_world))) = [1]"
    by (simp add: step_reports kyc_not_neutral kyc_should_end init_world_facts
        final_payload_def kyc_after_turn)
  show "map (\<lambda>p. phishingLinks (extractedIntelligence p))
        (reports (snd (process_message MAX_CONVERSATION_TURNS env0
          (scammer_says ''s1'' kyc_message) init_world))) = [[''http://bit.ly'']]"
    by (simp add: step_reports kyc_not_neutral kyc_should_end init_world_facts
        final_payload_def kyc_after_turn)
qed

section \<open>Payment handles\<close>

text \<open>
  C5, as the code runs it. From \<^verbatim>\<open>send to rahul.k@paytm now\<close> the extractor returns the
  provider \<^verbatim>\<open>paytm\<close> alone, for the same reason: the pattern's only group is the provider.
  From \<^verbatim>\<open>contact me at office@company.com\<close> it returns no handle.
\<close>

theorem payment_handles:
  "upiIds (extract_intel paytm_message) = [''paytm'']
   \<and> upiIds (extract_intel office_message) = []"
  by (simp add: paytm_upi office_upi)

section \<open>Phone numbers\<close>

text \<open>What \<^verbatim>\<open>_normalize_phones\<close> does with one matched text, in terms of the digits of that
  text.\<close>

lemma startswith_take: "startswith s w = (take (length w) s = w)"
  by (induction s w rule: startswith.induct) auto

lemma startswith_append: "startswith s w \<Longrightarrow> s = w @ drop (length w) s"
  by (metis append_take_drop_id startswith_take)

lemma in_789: "contains ''789'' [c] = (c \<in> {CHR ''7'', CHR ''8'', CHR ''9''})"
  by auto

lemma normalize_phone_cases:
  "normalize_phone phone = [] \<or> (\<exists>r. normalize_phone phone = [r])"
  by (simp add: normalize_phone_def Let_def)

lemma normalize_phone_iff:
  "normalize_phone phone = [r] \<longleftrightarrow>
     (\<exists>d. r = ''+91'' @ d \<and> length d = 10 \<and> hd d \<in> {CHR ''7'', CHR ''8'', CHR ''9''}
        \<and> filter is_digit phone \<in> {d, ''0'' @ d, ''91'' @ d, ''091'' @ d})"
  (is "?lhs = ?rhs")
proof
  define ds where "ds = filter is_digit phone"
  define d1 where "d1 = (if startswith ds ''0'' then drop 1 ds else ds)"
  define d2 where "d2 = (if startswith d1 ''91'' \<and> length d1 > 10 then drop 2 d1 else d1)"
  have np: "normalize_phone phone =
      (if length d2 = 10 \<and> contains ''789'' [hd d2] then [''+91'' @ d2] else [])"
    by (simp only: normalize_phone_def Let_def ds_def d1_def d2_def)
  assume ?lhs
  with np have d2: "length d2 = 10" "contains ''789'' [hd d2]" "r = ''+91'' @ d2"
    by (auto split: if_splits)
  have ds: "ds = d1 \<or> ds = ''0'' @ d1"
  proof (cases "startswith ds ''0''")
    case True
    have one: "length ''0'' = 1"
      by simp
    from True have "ds = ''0'' @ drop 1 ds"
      using startswith_append [of ds "''0''"] unfolding one by blast
    moreover from True have "drop 1 ds = d1"
      by (simp only: d1_def if_True simp_thms)
    ultimately show ?thesis
      by (simp only: simp_thms)
  next
    case False
    then show ?thesis
      by (simp only: d1_def if_False simp_thms)
  qed
  have d1: "d1 = d2 \<or> d1 = ''91'' @ d2"
  proof (cases "startswith d1 ''91'' \<and> length d1 > 10")
    case True
    have two: "length ''91'' = 2"
      by simp
    from True have "d1 = ''91'' @ drop 2 d1"
      using startswith_append [of d1 "''91''"] unfolding two by blast
    moreover from True have "drop 2 d1 = d2"
      by (simp only: d2_def if_True simp_thms)
    ultimately show ?thesis
      by (simp only: simp_thms)
  next
    case False
    then show ?thesis
      by (simp only: d2_def if_False simp_thms)
  qed
  from ds d1 have "ds \<in> {d2, ''0'' @ d2, ''91'' @ d2, ''091'' @ d2}"
    by auto
  with d2 show ?rhs
    unfolding ds_def in_789 by blast
next
  assume ?rhs
  then obtain d where d: "r = ''+91'' @ d" "length d = 10"
      "hd d \<in> {CHR ''7'', CHR ''8'', CHR ''9''}"
      "filter is_digit phone \<in> {d, ''0'' @ d, ''91'' @ d, ''091'' @ d}"
    by blast
  from d(2) obtain c cs where cs: "d = c # cs"
    by (cases d) auto
  with d(3) have c: "c \<in> {CHR ''7'', CHR ''8'', CHR ''9''}"
    by simp
  from d(4) consider "filter is_digit phone = d" | "filter is_digit phone = ''0'' @ d"
    | "filter is_digit phone = ''91'' @ d" | "filter is_digit phone = ''091'' @ d"
    by auto
  then show ?lhs
  proof cases
    case 1
    with d(1,2) cs c show ?thesis
      by (auto simp add: normalize_phone_def Let_def startswith_take)
  next
    case 2
    with d(1,2) cs c show ?thesis
      by (auto simp add: normalize_phone_def Let_def startswith_take)
  next
    case 3
    with d(1,2) cs c show ?thesis
      by (auto simp add: normalize_phone_def Let_def startswith_take)
  next
    case 4
    with d(1,2) cs c show ?thesis
      by (auto simp add: normalize_phone_def Let_def startswith_take)
  qed
qed

lemma filter_suffix:
  assumes "filter P xs = ys @ d"
  shows "filter P d = d"
proof -
  have "set d \<subseteq> set (filter P xs)"
    unfolding assms by simp
  then have "\<forall>x \<in> set d. P x"
    by auto
  then show ?thesis
    by (simp only: filter_id_conv)
qed

lemma normalize_phone_form:
  assumes "r \<in> set (normalize_phone phone)"
  shows "\<exists>d. r = ''+91'' @ d \<and> length d = 10 \<and> hd d \<in> {CHR ''7'', CHR ''8'', CHR ''9''}
           \<and> filter is_digit d = d"
proof -
  from assms normalize_phone_cases [of phone] have "normalize_phone phone = [r]"
    by auto
  then obtain d where d: "r = ''+91'' @ d" "length d = 10"
      "hd d \<in> {CHR ''7'', CHR ''8'', CHR ''9''}"
      "filter is_digit phone \<in> {d, ''0'' @ d, ''91'' @ d, ''091'' @ d}"
    unfolding normalize_phone_iff by blast
  from d(4) obtain ys where "filter is_digit phone = ys @ d"
    by (elim insertE emptyE) (rule that [of "[]"], simp, (rule that, assumption)+)
  then have "filter is_digit d = d"
    by (rule filter_suffix)
  with d(1-3) show ?thesis
    by blast
qed

lemma extracted_phones_form:
  "set (phoneNumbers (extract_intel text))
     \<subseteq> {''+91'' @ d | d. length d = 10 \<and> hd d \<in> {CHR ''7'', CHR ''8'', CHR ''9''}
                          \<and> filter is_digit d = d}"
proof
  fix r
  assume "r \<in> set (phoneNumbers (extract_intel text))"
  then have "r \<in> set (deduplicate (normalize_phones (findall False pat_phoneNumbers text)))"
    by (simp add: extract_intel_def Let_def)
  with deduplicate_subset
  have "r \<in> set (normalize_phones (findall False pat_phoneNumbers text))"
    by (rule subsetD)
  then obtain phone where "r \<in> set (normalize_phone phone)"
    by (auto simp add: normalize_phones_def)
  from normalize_phone_form [OF this] show "r \<in> {''+91'' @ d | d. length d = 10
      \<and> hd d \<in> {CHR ''7'', CHR ''8'', CHR ''9''} \<and> filter is_digit d = d}"
    by blast
qed

text \<open>
  C8. \<^verbatim>\<open>_normalize_phones\<close> yields at most one number for a matched text, and it yields
  \<^verbatim>\<open>+91\<close> followed by \<open>d\<close> exactly when \<open>d\<close> has ten characters, begins with 7, 8 or 9, and the
  digits of the text (all its other characters removed) are \<open>d\<close> itself, \<open>d\<close> after one
  leading 0, \<open>d\<close> after a leading 91, or \<open>d\<close> after a leading 0 and then 91: a leading 91 is
  dropped only from more than ten digits, and any other text yields nothing. The matched
  texts are normalized one by one, in order. Every phone number the extractor returns is
  \<^verbatim>\<open>+91\<close> followed by ten digits of which the first is 7, 8 or 9. The three spellings of one
  mobile number are normalized to \<^verbatim>\<open>+919876543210\<close>, by \<^verbatim>\<open>_normalize_phones\<close> and by the
  extractor as a whole; the text \<^verbatim>\<open>12345\<close> has no match of the phone pattern and yields no
  phone number.
\<close>

theorem phone_normalization:
  "(normalize_phone phone = [] \<or> (\<exists>r. normalize_phone phone = [r]))
   \<and> (normalize_phone phone = [r] \<longleftrightarrow>
        (\<exists>d. r = ''+91'' @ d \<and> length d = 10 \<and> hd d \<in> {CHR ''7'', CHR ''8'', CHR ''9''}
           \<and> filter is_digit phone \<in> {d, ''0'' @ d, ''91'' @ d, ''091'' @ d}))
   \<and> normalize_phones [] = []
   \<and> normalize_phones (phone # phones) = normalize_phone phone @ normalize_phones phones
   \<and> set (phoneNumbers (extract_intel text))
       \<subseteq> {''+91'' @ d | d. length d = 10 \<and> hd d \<in> {CHR ''7'', CHR ''8'', CHR ''9''}
                            \<and> filter is_digit d = d}
   \<and> normalize_phones [''+91 9876543210''] = [''+919876543210'']
   \<and> normalize_phones [''09876543210''] = [''+919876543210'']
   \<and> normalize_phones [''919876543210''] = [''+919876543210'']
   \<and> normalize_phones [''12345''] = []
   \<and> phoneNumbers (extract_intel ''+91 9876543210'') = [''+919876543210'']
   \<and> phoneNumbers (extract_intel ''09876543210'') = [''+919876543210'']
   \<and> phoneNumbers (extract_intel ''919876543210'') = [''+919876543210'']
   \<and> findall False pat_phoneNumbers ''12345'' = []
   \<and> phoneNumbers (extract_intel ''12345'') = []"
proof (intro conjI)
  show "normalize_phone phone = [] \<or> (\<exists>r. normalize_phone phone = [r])"
    by (rule normalize_phone_cases)
  show "normalize_phone phone = [r] \<longleftrightarrow>
        (\<exists>d. r = ''+91'' @ d \<and> length d = 10 \<and> hd d \<in> {CHR ''7'', CHR ''8'', CHR ''9''}
           \<and> filter is_digit phone \<in> {d, ''0'' @ d, ''91'' @ d, ''091'' @ d})"
    by (rule normalize_phone_iff)
  show "normalize_phones [] = []"
    by (simp add: normalize_phones_def)
  show "normalize_phones (phone # phones) = normalize_phone phone @ normalize_phones phones"
    by (simp add: normalize_phones_def)
  show "set (phoneNumbers (extract_intel text))
       \<subseteq> {''+91'' @ d | d. length d = 10 \<and> hd d \<in> {CHR ''7'', CHR ''8'', CHR ''9''}
                            \<and> filter is_digit d = d}"
    by (rule extracted_phones_form)
qed (simp_all only: phones_normalized phones_extracted)

text \<open>The rule at its edges: ten digits that begin with 91 keep them; ten digits that begin
  with 1 are discarded; separators between the digits do not matter.\<close>

theorem phone_normalization_witness:
  "normalize_phone ''9198765432'' = [''+919198765432'']
   \<and> normalize_phone ''1234567890'' = []
   \<and> normalize_phone ''+91-98765 43210'' = [''+919876543210'']"
proof (intro conjI)
  from phone_normalization [of "''9198765432''" "''+919198765432''", THEN conjunct2,
      THEN conjunct1]
  show "normalize_phone ''9198765432'' = [''+919198765432'']"
    unfolding phones_boundary by simp
  from phone_normalization [of "''+91-98765 43210''" "''+919876543210''", THEN conjunct2,
      THEN conjunct1]
  show "normalize_phone ''+91-98765 43210'' = [''+919876543210'']"
    unfolding phones_boundary by simp
  have "normalize_phone ''1234567890'' \<noteq> [r]" for r
    using phone_normalization [of "''1234567890''" r, THEN conjunct2, THEN conjunct1]
    unfolding phones_boundary by auto
  with phone_normalization [of "''1234567890''", THEN conjunct1]
  show "normalize_phone ''1234567890'' = []"
    by blast
qed

end
